theory Spec2Isabelle
  imports Complex_Main "HOL-Library.Monad_Syntax"
begin

section \<open>Raster images\<close>

text \<open>
  An image is modelled after the imaging library's in-memory structure: its two
  dimensions and its rows of pixels (\<open>image ! y ! x\<close> is the pixel in row \<open>y\<close>,
  column \<open>x\<close>). A single-channel (mode L) image and a \<open>uint8\<close> array have pixels
  of type \<open>nat\<close>, where 8-bit pixels are the values up to 255; an RGBA image has
  four-channel pixels.
\<close>

record 'a imaging =
  xsize :: nat
  ysize :: nat
  image :: "'a list list"

type_synonym rgba = "nat \<times> nat \<times> nat \<times> nat"

definition wf_imaging :: "'a imaging \<Rightarrow> bool" where
  "wf_imaging im \<longleftrightarrow>
     length (image im) = ysize im \<and> (\<forall>line \<in> set (image im). length line = xsize im)"

definition is_uint8 :: "nat imaging \<Rightarrow> bool" where
  "is_uint8 im \<longleftrightarrow> (\<forall>line \<in> set (image im). \<forall>v \<in> set line. v \<le> 255)"

definition Image_new :: "nat \<times> nat \<Rightarrow> 'a \<Rightarrow> 'a imaging" where
  \<comment> \<open>\<open>Image.new(mode, (w, h), color)\<close>\<close>
  "Image_new sz color =
     \<lparr>xsize = fst sz, ysize = snd sz,
      image = replicate (snd sz) (replicate (fst sz) color)\<rparr>"

section \<open>Rank filters of the imaging library\<close>

text \<open>
  \<open>image.filter(MaxFilter(size))\<close> and \<open>image.filter(MinFilter(size))\<close> are the
  library's rank filter: the image is first expanded by \<open>size // 2\<close> pixels on
  every side, replicating its border pixels, and every output pixel is then the
  element of the given rank among the \<open>size * size\<close> pixels of the window whose
  upper left corner it is in the expanded image. \<open>MinFilter\<close> has rank 0,
  \<open>MaxFilter\<close> has rank \<open>size * size - 1\<close>. The sizes used here, 5 and 3, are odd
  (the library refuses an even size).
\<close>

definition expand_line :: "nat \<Rightarrow> nat \<Rightarrow> 'a list \<Rightarrow> 'a list" where
  "expand_line xmargin xs line =
     replicate xmargin (line ! 0) @ line @ replicate xmargin (line ! (xs - 1))"

definition expand :: "nat \<Rightarrow> nat \<Rightarrow> 'a imaging \<Rightarrow> 'a imaging" where
  "expand xmargin ymargin imIn =
     \<lparr>xsize = xsize imIn + 2 * xmargin,
      ysize = ysize imIn + 2 * ymargin,
      image =
        replicate ymargin (expand_line xmargin (xsize imIn) (image imIn ! 0))
        @ map (expand_line xmargin (xsize imIn)) (image imIn)
        @ replicate ymargin
            (expand_line xmargin (xsize imIn) (image imIn ! (ysize imIn - 1)))\<rparr>"

definition Rank :: "nat list \<Rightarrow> nat \<Rightarrow> nat" where
  \<comment> \<open>the element of rank \<open>rank\<close> of the window buffer\<close>
  "Rank buf rank = sort buf ! rank"

definition rankfilter :: "nat \<Rightarrow> nat \<Rightarrow> nat imaging \<Rightarrow> nat imaging" where
  "rankfilter sz rank im =
     (let xs = xsize im - 2 * (sz div 2);
          ys = ysize im - 2 * (sz div 2)
      in \<lparr>xsize = xs, ysize = ys,
          image =
            map (\<lambda>y. map (\<lambda>x.
                  Rank (concat (map (\<lambda>i. map (\<lambda>j. image im ! (y + i) ! (x + j))
                                         [0..<sz]) [0..<sz])) rank)
                [0..<xs]) [0..<ys]\<rparr>)"

definition RankFilter :: "nat \<Rightarrow> nat \<Rightarrow> nat imaging \<Rightarrow> nat imaging" where
  "RankFilter sz rank im = rankfilter sz rank (expand (sz div 2) (sz div 2) im)"

definition MinFilter :: "nat \<Rightarrow> nat imaging \<Rightarrow> nat imaging" where
  "MinFilter sz im = RankFilter sz 0 im"

definition MaxFilter :: "nat \<Rightarrow> nat imaging \<Rightarrow> nat imaging" where
  "MaxFilter sz im = RankFilter sz (sz * sz - 1) im"

section \<open>The icon renderer: mask cleanup\<close>

text \<open>
  \<open>a[cond(a)] = c\<close> on an array: every element that satisfies the condition is
  overwritten with the constant; the others are kept. Converting between a mode L
  image and a \<open>uint8\<close> array keeps sizes and pixel values.
\<close>

definition assign_where :: "(nat \<Rightarrow> bool) \<Rightarrow> nat \<Rightarrow> nat imaging \<Rightarrow> nat imaging" where
  "assign_where cond c a = a\<lparr>image := map (map (\<lambda>v. if cond v then c else v)) (image a)\<rparr>"

definition clean_mask :: "nat imaging \<Rightarrow> nat imaging" where
  "clean_mask mask_small =
     (let m = MinFilter 5 (MaxFilter 5 mask_small);
          a = m;
          a = assign_where (\<lambda>v. v < 8) 0 a;
          a = assign_where (\<lambda>v. v \<ge> 200) 255 a;
          m2 = MinFilter 3 (MaxFilter 3 a);
          a2 = m2;
          a2 = assign_where (\<lambda>v. v \<ge> 200) 255 a2;
          a2 = assign_where (\<lambda>v. v < 8) 0 a2
      in a2)"

definition clean_mask_stages :: "nat imaging \<Rightarrow> nat imaging list" where
  \<comment> \<open>every buffer that \<open>clean_mask\<close> computes, in the order of its statements\<close>
  "clean_mask_stages mask_small =
     (let m0 = MaxFilter 5 mask_small;
          m = MinFilter 5 m0;
          a = assign_where (\<lambda>v. v < 8) 0 m;
          a' = assign_where (\<lambda>v. v \<ge> 200) 255 a;
          m1 = MaxFilter 3 a';
          m2 = MinFilter 3 m1;
          a2 = assign_where (\<lambda>v. v \<ge> 200) 255 m2;
          a2' = assign_where (\<lambda>v. v < 8) 0 a2
      in [m0, m, a, a', m1, m2, a2, a2'])"

section \<open>The icon renderer: curve samples and caps\<close>

text \<open>
  The curve is sampled in floating-point numbers, modelled by real numbers.
  \<open>arc_pts\<close> is the list \<open>pts\<close> of \<open>make_arc_mask\<close>, and \<open>cap_boxes\<close> the list of
  the bounding boxes handed to the two \<open>ellipse\<close> calls. What the line, the
  ellipses and the resize write into the mask is the imaging library's work.
\<close>

definition cubic ::
  "real \<times> real \<Rightarrow> real \<times> real \<Rightarrow> real \<times> real \<Rightarrow> real \<times> real \<Rightarrow> real \<Rightarrow> real \<times> real" where
  "cubic p0 p1 p2 p3 t =
     ((1 - t) ^ 3 * fst p0 + 3 * (1 - t) ^ 2 * t * fst p1 + 3 * (1 - t) * t ^ 2 * fst p2
        + t ^ 3 * fst p3,
      (1 - t) ^ 3 * snd p0 + 3 * (1 - t) ^ 2 * t * snd p1 + 3 * (1 - t) * t ^ 2 * snd p2
        + t ^ 3 * snd p3)"

definition arc_pts :: "real \<Rightarrow> (real \<times> real) list" where
  "arc_pts scale =
     (let p0 = (160 * scale, 560 * scale);
          p1 = (360 * scale, 560 * scale);
          p2 = (664 * scale, 250 * scale);
          p3 = (864 * scale, 535 * scale)
      in map (\<lambda>i. cubic p0 p1 p2 p3 (real i / 1999)) [0..<2000])"

definition cap_boxes :: "real \<Rightarrow> real \<Rightarrow> (real \<times> real \<times> real \<times> real) list" where
  "cap_boxes scale stroke_w =
     (let pts = arc_pts scale;
          cap_r = (stroke_w * scale) / 2
      in map (\<lambda>(x, y). (x - cap_r, y - cap_r, x + cap_r, y + cap_r)) [pts ! 0, last pts])"

section \<open>The icon renderer: composite\<close>

definition OUT :: nat where
  "OUT = 1024"

datatype error = ValueError

text \<open>
  \<open>fg.putalpha(mask)\<close> with a mode L mask: the library copies the mask into the
  alpha band of the image and raises \<open>ValueError\<close> when the two sizes differ.
\<close>

definition putalpha :: "rgba imaging \<Rightarrow> nat imaging \<Rightarrow> error + rgba imaging" where
  "putalpha im alpha =
     (if xsize alpha \<noteq> xsize im \<or> ysize alpha \<noteq> ysize im then Inl ValueError
      else Inr (im\<lparr>image :=
             map2 (\<lambda>line aline. map2 (\<lambda>(r, g, b, _) a. (r, g, b, a)) line aline)
               (image im) (image alpha)\<rparr>))"

text \<open>
  \<open>make_foreground_png_solid\<close>. The pixels of the mask that \<open>make_arc_mask\<close>
  returns are produced by the imaging library's line and ellipse rasteriser and
  its Lanczos resize, so that mask is the argument \<open>arc_mask\<close> here: the image
  returned by \<open>make_arc_mask(out_size=OUT, scale=10, stroke_w=stroke_w)\<close>, which
  the final \<open>resize((out_size, out_size))\<close> makes \<open>OUT\<close> by \<open>OUT\<close>. The result is
  the image handed to \<open>save\<close>.
\<close>

definition make_foreground_png_solid :: "nat imaging \<Rightarrow> error + rgba imaging" where
  "make_foreground_png_solid arc_mask =
     (let mask = arc_mask;
          mask = clean_mask mask;
          fg = Image_new (OUT, OUT) (255, 255, 255, 255)
      in putalpha fg mask)"

definition rgb_of :: "rgba \<Rightarrow> nat \<times> nat \<times> nat" where
  "rgb_of c = (case c of (r, g, b, a) \<Rightarrow> (r, g, b))"

definition alpha_of :: "rgba \<Rightarrow> nat" where
  "alpha_of c = (case c of (r, g, b, a) \<Rightarrow> a)"

section \<open>Single-precision arithmetic\<close>

text \<open>
  The arrays of \<open>make_glow_png\<close> hold 32-bit floating-point numbers (IEEE 754
  binary32), and every array operation rounds its result to that format. A
  finite binary32 value is modelled by the real number it denotes. \<open>rnd32\<close>
  rounds a real number to the nearest number with a 24-bit significand, ties to
  the even significand, with the subnormal spacing \<open>2 powi (- 149)\<close> below
  \<open>2 powi (- 126)\<close>. \<open>fl32\<close> is the rounding with the format's range: \<open>None\<close>
  where the rounded magnitude reaches \<open>2 ^ 128\<close>, where the machine result is an
  infinity. In all these operations \<open>None\<close> stands for a result that is not a
  finite number (an infinity or a NaN), which this model does not follow
  further.
\<close>

definition rne :: "real \<Rightarrow> int" where
  \<comment> \<open>the nearest integer, ties to even\<close>
  "rne z = (let f = \<lfloor>z\<rfloor>; r = z - of_int f
            in if r < 1 / 2 then f else if 1 / 2 < r then f + 1
               else if even f then f else f + 1)"

definition expo32 :: "real \<Rightarrow> int" where
  "expo32 x = max \<lfloor>log 2 \<bar>x\<bar>\<rfloor> (- 126)"

definition rnd32 :: "real \<Rightarrow> real" where
  "rnd32 x = (if x = 0 then 0
              else of_int (rne (x / 2 powi (expo32 x - 23))) * 2 powi (expo32 x - 23))"

definition fl32 :: "real \<Rightarrow> real option" where
  "fl32 x = (if \<bar>rnd32 x\<bar> < 2 ^ 128 then Some (rnd32 x) else None)"

definition f32_add :: "real \<Rightarrow> real \<Rightarrow> real option" where
  "f32_add a b = fl32 (a + b)"

definition f32_sub :: "real \<Rightarrow> real \<Rightarrow> real option" where
  "f32_sub a b = fl32 (a - b)"

definition f32_mul :: "real \<Rightarrow> real \<Rightarrow> real option" where
  "f32_mul a b = fl32 (a * b)"

definition f32_div :: "real \<Rightarrow> real \<Rightarrow> real option" where
  "f32_div a b = (if b = 0 then None else fl32 (a / b))"

definition f32_sqrt :: "real \<Rightarrow> real option" where
  "f32_sqrt a = (if a < 0 then None else fl32 (sqrt a))"

section \<open>The glow renderer\<close>

text \<open>
  The arguments of \<open>make_glow_png\<close> are Python numbers; the record holds their
  values, and an argument is rounded to binary32 where it enters an array
  operation. \<open>yy\<close> and \<open>xx\<close> hold the row and the column index of each pixel,
  which are exact in binary32. Every function below gives the value at one
  pixel (row \<open>y\<close>, column \<open>x\<close>) of the array of the same name.

  \<open>t ** power\<close> is the array library's single-precision power, which is not
  repository code and is not a correctly rounded operation. It is the argument
  \<open>pw\<close> of the model, used for a base other than 0 and 1 and a positive
  exponent; at a base of 0 or 1 and at exponent 0 the result is the one that
  the floating-point standard fixes. A negative exponent is not modelled.
\<close>

record glow_args =
  center :: "real \<times> real"
  radius :: real
  alpha0 :: real
  blur :: real
  power :: real

definition default_args :: glow_args where
  \<comment> \<open>the defaults of \<open>make_glow_png\<close>, with which the script calls it; the power is
      used only through its rounding to single precision\<close>
  "default_args = \<lparr>center = (512, 410), radius = 280, alpha0 = 185, blur = 20, power = 19 / 10\<rparr>"

definition np_clip :: "real \<Rightarrow> real \<Rightarrow> real \<Rightarrow> real" where
  "np_clip a a_min a_max = min (max a a_min) a_max"

definition np_power :: "(real \<Rightarrow> real \<Rightarrow> real) \<Rightarrow> real \<Rightarrow> real \<Rightarrow> real option" where
  "np_power pw b e =
     (if e = 0 then Some 1
      else if e < 0 then None
      else if b = 0 then Some 0
      else if b = 1 then Some 1
      else Some (pw b e))"

definition astype_uint8 :: "real \<Rightarrow> nat" where
  \<comment> \<open>the cast truncates towards zero and keeps the low eight bits\<close>
  "astype_uint8 v = nat ((if v < 0 then \<lceil>v\<rceil> else \<lfloor>v\<rfloor>) mod 256)"

definition dist_px :: "glow_args \<Rightarrow> nat \<Rightarrow> nat \<Rightarrow> real option" where
  \<comment> \<open>\<open>dist = np.sqrt((xx - cx) ** 2 + (yy - cy) ** 2)\<close>\<close>
  "dist_px g y x =
     (case center g of (cx, cy) \<Rightarrow>
        do {
          cx \<leftarrow> fl32 cx;
          cy \<leftarrow> fl32 cy;
          dx \<leftarrow> f32_sub (real x) cx;
          dy \<leftarrow> f32_sub (real y) cy;
          dx2 \<leftarrow> f32_mul dx dx;
          dy2 \<leftarrow> f32_mul dy dy;
          s \<leftarrow> f32_add dx2 dy2;
          f32_sqrt s
        })"

definition t_of :: "glow_args \<Rightarrow> nat \<Rightarrow> nat \<Rightarrow> real option" where
  \<comment> \<open>\<open>t = np.clip(1 - dist / float(radius), 0, 1)\<close>\<close>
  "t_of g y x =
     do {
       d \<leftarrow> dist_px g y x;
       r \<leftarrow> fl32 (radius g);
       q \<leftarrow> f32_div d r;
       v \<leftarrow> f32_sub 1 q;
       Some (np_clip v 0 1)
     }"

definition alpha :: "(real \<Rightarrow> real \<Rightarrow> real) \<Rightarrow> glow_args \<Rightarrow> nat \<Rightarrow> nat \<Rightarrow> real option" where
  \<comment> \<open>\<open>alpha = (t ** power) * alpha0\<close>\<close>
  "alpha pw g y x =
     do {
       t \<leftarrow> t_of g y x;
       p \<leftarrow> fl32 (power g);
       w \<leftarrow> np_power pw t p;
       a0 \<leftarrow> fl32 (alpha0 g);
       f32_mul w a0
     }"

definition alpha_u8 :: "(real \<Rightarrow> real \<Rightarrow> real) \<Rightarrow> glow_args \<Rightarrow> nat \<Rightarrow> nat \<Rightarrow> nat option" where
  \<comment> \<open>\<open>np.clip(alpha, 0, 255).astype(np.uint8)\<close>\<close>
  "alpha_u8 pw g y x =
     do {
       a \<leftarrow> alpha pw g y x;
       Some (astype_uint8 (np_clip a 0 255))
     }"

definition np_zeros :: "nat \<Rightarrow> nat \<Rightarrow> rgba imaging" where
  "np_zeros h w = \<lparr>xsize = w, ysize = h, image = replicate h (replicate w (0, 0, 0, 0))\<rparr>"

definition set_rgb :: "nat \<Rightarrow> rgba imaging \<Rightarrow> rgba imaging" where
  \<comment> \<open>\<open>arr[..., :3] = c\<close>\<close>
  "set_rgb c arr = arr\<lparr>image := map (map (\<lambda>(r, g, b, a). (c, c, c, a))) (image arr)\<rparr>"

definition set_alpha :: "nat list list \<Rightarrow> rgba imaging \<Rightarrow> rgba imaging" where
  \<comment> \<open>\<open>arr[..., 3] = values\<close>\<close>
  "set_alpha values arr =
     arr\<lparr>image := map (\<lambda>y. map (\<lambda>x. case image arr ! y ! x of (r, g, b, _) \<Rightarrow> (r, g, b, values ! y ! x))
                          [0..<xsize arr]) [0..<ysize arr]\<rparr>"

definition alpha_rows :: "(real \<Rightarrow> real \<Rightarrow> real) \<Rightarrow> glow_args \<Rightarrow> nat list list option" where
  \<comment> \<open>the whole 8-bit alpha array, when every entry is the cast of a finite number\<close>
  "alpha_rows pw g = those (map (\<lambda>y. those (map (\<lambda>x. alpha_u8 pw g y x) [0..<OUT])) [0..<OUT])"

definition glow_rgba :: "(real \<Rightarrow> real \<Rightarrow> real) \<Rightarrow> glow_args \<Rightarrow> rgba imaging option" where
  \<comment> \<open>the array \<open>glow_rgba\<close> of \<open>make_glow_png\<close>, before the blur\<close>
  "glow_rgba pw g =
     do {
       values \<leftarrow> alpha_rows pw g;
       let glow_rgba = np_zeros OUT OUT;
       let glow_rgba = set_rgb 255 glow_rgba;
       let glow_rgba = set_alpha values glow_rgba;
       Some glow_rgba
     }"

text \<open>
  \<open>make_glow_png\<close> hands the array, as an RGBA image, to the imaging library's
  Gaussian blur, here the argument \<open>GaussianBlur\<close>, and saves the result.
\<close>

definition make_glow_png ::
  "(real \<Rightarrow> rgba imaging \<Rightarrow> rgba imaging) \<Rightarrow> (real \<Rightarrow> real \<Rightarrow> real) \<Rightarrow> glow_args
     \<Rightarrow> rgba imaging option" where
  "make_glow_png GaussianBlur pw g =
     do {
       glow_rgba \<leftarrow> glow_rgba pw g;
       let glow = GaussianBlur (blur g) glow_rgba;
       Some glow
     }"




text \<open>
  What the monotonicity of the glow needs of the power function at exponent
  \<open>e\<close>: on bases strictly between 0 and 1 it does not decrease as the base grows,
  and its values lie between 0 and 1.
\<close>

definition pw_monotone :: "(real \<Rightarrow> real \<Rightarrow> real) \<Rightarrow> real \<Rightarrow> bool" where
  "pw_monotone pw e \<longleftrightarrow>
     (\<forall>a b. 0 < a \<and> a \<le> b \<and> b < 1 \<longrightarrow> 0 \<le> pw a e \<and> pw a e \<le> pw b e \<and> pw b e \<le> 1)"

section \<open>Notions used in the proofs\<close>

text \<open>
  Pixels are addressed by pairs (row, column). \<open>nb m n i\<close> is the set of indices
  below \<open>n\<close> at distance at most \<open>m\<close> from \<open>i\<close>: the window of a filter of size
  \<open>2 * m + 1\<close> once the replicated border is folded back into the image.
\<close>

definition px :: "'a imaging \<Rightarrow> nat \<times> nat \<Rightarrow> 'a" where
  "px im p = image im ! fst p ! snd p"

definition inside :: "nat \<Rightarrow> nat \<Rightarrow> nat \<times> nat \<Rightarrow> bool" where
  "inside h w p \<longleftrightarrow> fst p < h \<and> snd p < w"

definition nb :: "nat \<Rightarrow> nat \<Rightarrow> nat \<Rightarrow> nat set" where
  "nb m n i = {j. j < n \<and> j \<le> i + m \<and> i \<le> j + m}"

definition nbhd :: "nat \<Rightarrow> nat \<Rightarrow> nat \<Rightarrow> nat \<times> nat \<Rightarrow> (nat \<times> nat) set" where
  "nbhd m h w p = nb m h (fst p) \<times> nb m w (snd p)"

definition dilate_fn :: "nat \<Rightarrow> nat \<Rightarrow> nat \<Rightarrow> (nat \<times> nat \<Rightarrow> nat) \<Rightarrow> nat \<times> nat \<Rightarrow> nat" where
  "dilate_fn m h w f p = Max (f ` nbhd m h w p)"

definition erode_fn :: "nat \<Rightarrow> nat \<Rightarrow> nat \<Rightarrow> (nat \<times> nat \<Rightarrow> nat) \<Rightarrow> nat \<times> nat \<Rightarrow> nat" where
  "erode_fn m h w f p = Min (f ` nbhd m h w p)"

definition close_fn :: "nat \<Rightarrow> nat \<Rightarrow> nat \<Rightarrow> (nat \<times> nat \<Rightarrow> nat) \<Rightarrow> nat \<times> nat \<Rightarrow> nat" where
  "close_fn m h w f = erode_fn m h w (dilate_fn m h w f)"

definition snap :: "nat \<Rightarrow> nat" where
  \<comment> \<open>the effect of the two threshold assignments on one pixel, in either order\<close>
  "snap v = (if v < 8 then 0 else if v \<ge> 200 then 255 else v)"

text \<open>
  For the glow at the default arguments: the squared distance of a pixel from
  the center, as an integer; the value of \<open>t\<close>; and the power at the default
  exponent.
\<close>

definition sq_dist :: "nat \<Rightarrow> nat \<Rightarrow> int" where
  "sq_dist y x = (int x - 512)\<^sup>2 + (int y - 410)\<^sup>2"

definition t_default :: "nat \<Rightarrow> nat \<Rightarrow> real" where
  "t_default y x = np_clip (rnd32 (1 - rnd32 (rnd32 (sqrt (of_int (sq_dist y x))) / 280))) 0 1"

definition pow_default :: "(real \<Rightarrow> real \<Rightarrow> real) \<Rightarrow> real \<Rightarrow> real" where
  "pow_default pw t = (if t = 0 then 0 else if t = 1 then 1 else pw t (rnd32 (19 / 10)))"


section \<open>The rank filters, pixel by pixel\<close>

lemma xsize_RankFilter: "xsize (RankFilter sz r im) = xsize im"
  by (simp add: RankFilter_def rankfilter_def expand_def Let_def)

lemma ysize_RankFilter: "ysize (RankFilter sz r im) = ysize im"
  by (simp add: RankFilter_def rankfilter_def expand_def Let_def)

lemma wf_RankFilter: "wf_imaging (RankFilter sz r im)"
  by (simp add: wf_imaging_def RankFilter_def rankfilter_def expand_def Let_def)

lemma expand_line_nth:
  assumes "length line = w" "0 < w" "x < w + 2 * xm"
  shows "expand_line xm w line ! x = line ! min (w - 1) (x - xm)"
proof -
  consider "x < xm" | "xm \<le> x" "x < xm + w" | "xm + w \<le> x" by linarith
  then show ?thesis
  proof cases
    case 1
    then show ?thesis by (simp add: expand_line_def nth_append)
  next
    case 2
    then have "min (w - 1) (x - xm) = x - xm" by simp
    with 2 assms show ?thesis by (simp add: expand_line_def nth_append)
  next
    case 3
    then have "min (w - 1) (x - xm) = w - 1" by simp
    with 3 assms show ?thesis by (simp add: expand_line_def nth_append)
  qed
qed

lemma expand_nth:
  assumes wf: "wf_imaging im" and y: "y < ysize im + 2 * ym" and x: "x < xsize im + 2 * xm"
    and pos: "0 < ysize im" "0 < xsize im"
  shows "image (expand xm ym im) ! y ! x =
         image im ! min (ysize im - 1) (y - ym) ! min (xsize im - 1) (x - xm)"
proof -
  let ?E = "expand_line xm (xsize im)"
  have len: "length (image im) = ysize im" using wf by (simp add: wf_imaging_def)
  have row: "image (expand xm ym im) ! y = ?E (image im ! min (ysize im - 1) (y - ym))"
  proof -
    consider "y < ym" | "ym \<le> y" "y < ym + ysize im" | "ym + ysize im \<le> y" by linarith
    then show ?thesis
    proof cases
      case 1
      then show ?thesis by (simp add: expand_def nth_append)
    next
      case 2
      then have "min (ysize im - 1) (y - ym) = y - ym" by simp
      with 2 len show ?thesis by (simp add: expand_def nth_append)
    next
      case 3
      then have "min (ysize im - 1) (y - ym) = ysize im - 1" by simp
      with 3 len y show ?thesis by (simp add: expand_def nth_append)
    qed
  qed
  have "min (ysize im - 1) (y - ym) < length (image im)" using pos len by simp
  then have "image im ! min (ysize im - 1) (y - ym) \<in> set (image im)" by (rule nth_mem)
  then have "length (image im ! min (ysize im - 1) (y - ym)) = xsize im"
    using wf by (simp add: wf_imaging_def)
  then show ?thesis using row expand_line_nth [OF _ pos(2) x] by simp
qed

lemma Rank_max:
  assumes "buf \<noteq> []"
  shows "Rank buf (length buf - 1) = Max (set buf)"
proof -
  let ?s = "sort buf"
  have n: "length ?s - 1 < length ?s" using assms by (cases buf) simp_all
  have "Max (set ?s) = ?s ! (length ?s - 1)"
  proof (rule Max_eqI)
    show "finite (set ?s)" by simp
    show "?s ! (length ?s - 1) \<in> set ?s" using n by (rule nth_mem)
    fix v assume "v \<in> set ?s"
    then obtain i where "i < length ?s" "?s ! i = v" unfolding in_set_conv_nth by blast
    then show "v \<le> ?s ! (length ?s - 1)"
      using sorted_nth_mono [of ?s i "length ?s - 1"] n by auto
  qed
  then show ?thesis by (simp add: Rank_def)
qed

lemma Rank_min:
  assumes "buf \<noteq> []"
  shows "Rank buf 0 = Min (set buf)"
proof -
  let ?s = "sort buf"
  have n: "0 < length ?s" using assms by (cases buf) simp_all
  have "Min (set ?s) = ?s ! 0"
  proof (rule Min_eqI)
    show "finite (set ?s)" by simp
    show "?s ! 0 \<in> set ?s" using n by (rule nth_mem)
    fix v assume "v \<in> set ?s"
    then obtain i where "i < length ?s" "?s ! i = v" unfolding in_set_conv_nth by blast
    then show "?s ! 0 \<le> v"
      using sorted_nth_mono [of ?s 0 i] by auto
  qed
  then show ?thesis by (simp add: Rank_def)
qed

lemma length_window: "length (concat (map (\<lambda>i. map (g i) [0..<n]) [0..<n])) = n * n"
  by (simp add: length_concat comp_def sum_list_triv)

lemma set_window:
  "set (concat (map (\<lambda>i. map (g i) [0..<n]) [0..<n])) = (\<lambda>(i, j). g i j) ` ({0..<n} \<times> {0..<n})"
  by (auto simp: image_iff)

lemma clamp_image:
  assumes "i < n"
  shows "(\<lambda>d. min (n - 1) (i + d - m)) ` {0..<2 * m + 1} = nb m n i"
proof (rule set_eqI, rule iffI)
  fix j assume "j \<in> (\<lambda>d. min (n - 1) (i + d - m)) ` {0..<2 * m + 1}"
  then obtain d where "d < 2 * m + 1" "j = min (n - 1) (i + d - m)" by auto
  with assms show "j \<in> nb m n i" by (auto simp: nb_def min_def)
next
  fix j assume "j \<in> nb m n i"
  then have j: "j < n" "j \<le> i + m" "i \<le> j + m" by (simp_all add: nb_def)
  then have "j + m - i \<in> {0..<2 * m + 1}" "j = min (n - 1) (i + (j + m - i) - m)"
    by auto
  then show "j \<in> (\<lambda>d. min (n - 1) (i + d - m)) ` {0..<2 * m + 1}" by (rule rev_image_eqI)
qed

lemma window_set:
  assumes wf: "wf_imaging im" and y: "y < ysize im" and x: "x < xsize im"
  shows "set (concat (map (\<lambda>i. map (\<lambda>j. image (expand m m im) ! (y + i) ! (x + j))
                                   [0..<2 * m + 1]) [0..<2 * m + 1]))
         = px im ` nbhd m (ysize im) (xsize im) (y, x)"
proof -
  have E: "image (expand m m im) ! (y + i) ! (x + j)
           = image im ! min (ysize im - 1) (y + i - m) ! min (xsize im - 1) (x + j - m)"
    if "i < 2 * m + 1" "j < 2 * m + 1" for i j
    using that y x by (intro expand_nth [OF wf]) simp_all
  have "set (concat (map (\<lambda>i. map (\<lambda>j. image (expand m m im) ! (y + i) ! (x + j))
                                   [0..<2 * m + 1]) [0..<2 * m + 1]))
        = (\<lambda>(i, j). image (expand m m im) ! (y + i) ! (x + j)) ` ({0..<2 * m + 1} \<times> {0..<2 * m + 1})"
    by (rule set_window)
  also have "\<dots> = (\<lambda>(i, j). px im (min (ysize im - 1) (y + i - m), min (xsize im - 1) (x + j - m)))
                    ` ({0..<2 * m + 1} \<times> {0..<2 * m + 1})"
    by (rule image_cong) (auto simp: E px_def)
  also have "\<dots> = px im ` ((\<lambda>i. min (ysize im - 1) (y + i - m)) ` {0..<2 * m + 1}
                           \<times> (\<lambda>j. min (xsize im - 1) (x + j - m)) ` {0..<2 * m + 1})"
    by (auto simp: image_iff)
  also have "\<dots> = px im ` nbhd m (ysize im) (xsize im) (y, x)"
    by (simp only: clamp_image [OF y] clamp_image [OF x] nbhd_def fst_conv snd_conv)
  finally show ?thesis .
qed

lemma px_RankFilter:
  assumes y: "y < ysize im" and x: "x < xsize im"
  shows "px (RankFilter sz r im) (y, x) =
         Rank (concat (map (\<lambda>i. map (\<lambda>j. image (expand (sz div 2) (sz div 2) im) ! (y + i) ! (x + j))
                                   [0..<sz]) [0..<sz])) r"
  using assms by (simp add: px_def RankFilter_def rankfilter_def Let_def expand_def)

lemma px_MaxFilter:
  assumes wf: "wf_imaging im" and y: "y < ysize im" and x: "x < xsize im"
    and sz: "sz = 2 * m + 1"
  shows "px (MaxFilter sz im) (y, x) = dilate_fn m (ysize im) (xsize im) (px im) (y, x)"
proof -
  let ?buf = "concat (map (\<lambda>i. map (\<lambda>j. image (expand m m im) ! (y + i) ! (x + j))
                                   [0..<2 * m + 1]) [0..<2 * m + 1])"
  have l: "length ?buf = sz * sz" unfolding sz by (rule length_window)
  then have ne: "?buf \<noteq> []" using sz by auto
  have "px (MaxFilter sz im) (y, x) = Rank ?buf (length ?buf - 1)"
    unfolding l by (simp add: MaxFilter_def px_RankFilter [OF y x] sz)
  also have "\<dots> = Max (set ?buf)" using ne by (rule Rank_max)
  finally show ?thesis by (simp only: window_set [OF wf y x] dilate_fn_def)
qed

lemma px_MinFilter:
  assumes wf: "wf_imaging im" and y: "y < ysize im" and x: "x < xsize im"
    and sz: "sz = 2 * m + 1"
  shows "px (MinFilter sz im) (y, x) = erode_fn m (ysize im) (xsize im) (px im) (y, x)"
proof -
  let ?buf = "concat (map (\<lambda>i. map (\<lambda>j. image (expand m m im) ! (y + i) ! (x + j))
                                   [0..<2 * m + 1]) [0..<2 * m + 1])"
  have l: "length ?buf = sz * sz" unfolding sz by (rule length_window)
  then have ne: "?buf \<noteq> []" using sz by auto
  have "px (MinFilter sz im) (y, x) = Rank ?buf 0"
    by (simp add: MinFilter_def px_RankFilter [OF y x] sz)
  also have "\<dots> = Min (set ?buf)" using ne by (rule Rank_min)
  finally show ?thesis by (simp only: window_set [OF wf y x] erode_fn_def)
qed

lemma finite_nb: "finite (nb m n i)"
  by (simp add: nb_def)

lemma finite_nbhd: "finite (nbhd m h w p)"
  by (simp add: nbhd_def finite_nb)

lemma nbhd_self: "inside h w p \<Longrightarrow> p \<in> nbhd m h w p"
  by (cases p) (simp add: inside_def nbhd_def nb_def)

lemma nbhd_inside: "q \<in> nbhd m h w p \<Longrightarrow> inside h w q"
  by (cases p, cases q) (simp add: inside_def nbhd_def nb_def)

lemma nbhd_sym: "q \<in> nbhd m h w p \<Longrightarrow> inside h w p \<Longrightarrow> p \<in> nbhd m h w q"
  by (cases p, cases q) (simp add: inside_def nbhd_def nb_def)

lemma dilate_ge: "q \<in> nbhd m h w p \<Longrightarrow> f q \<le> dilate_fn m h w f p"
  unfolding dilate_fn_def by (rule Max_ge) (simp_all add: finite_nbhd)

lemma erode_le: "q \<in> nbhd m h w p \<Longrightarrow> erode_fn m h w f p \<le> f q"
  unfolding erode_fn_def by (rule Min_le) (simp_all add: finite_nbhd)

lemma dilate_le:
  assumes "inside h w p" and "\<And>q. q \<in> nbhd m h w p \<Longrightarrow> f q \<le> c"
  shows "dilate_fn m h w f p \<le> c"
proof -
  have "f ` nbhd m h w p \<noteq> {}" using nbhd_self [OF assms(1)] by blast
  then show ?thesis
    unfolding dilate_fn_def using assms(2) by (simp add: finite_nbhd)
qed

lemma erode_ge:
  assumes "inside h w p" and "\<And>q. q \<in> nbhd m h w p \<Longrightarrow> c \<le> f q"
  shows "c \<le> erode_fn m h w f p"
proof -
  have "f ` nbhd m h w p \<noteq> {}" using nbhd_self [OF assms(1)] by blast
  then show ?thesis
    unfolding erode_fn_def using assms(2) by (simp add: finite_nbhd)
qed

lemma dilate_cong:
  assumes "\<And>q. inside h w q \<Longrightarrow> f q = g q"
  shows "dilate_fn m h w f p = dilate_fn m h w g p"
proof -
  have "f ` nbhd m h w p = g ` nbhd m h w p"
    by (rule image_cong) (simp_all add: assms nbhd_inside)
  then show ?thesis by (simp add: dilate_fn_def)
qed

lemma erode_cong:
  assumes "\<And>q. inside h w q \<Longrightarrow> f q = g q"
  shows "erode_fn m h w f p = erode_fn m h w g p"
proof -
  have "f ` nbhd m h w p = g ` nbhd m h w p"
    by (rule image_cong) (simp_all add: assms nbhd_inside)
  then show ?thesis by (simp add: erode_fn_def)
qed

lemma close_cong:
  assumes "\<And>q. inside h w q \<Longrightarrow> f q = g q"
  shows "close_fn m h w f p = close_fn m h w g p"
  unfolding close_fn_def
  by (rule erode_cong, rule dilate_cong) (rule assms)

lemma close_extensive:
  assumes "inside h w p"
  shows "f p \<le> close_fn m h w f p"
  unfolding close_fn_def
proof (rule erode_ge [OF assms])
  fix q assume "q \<in> nbhd m h w p"
  then have "p \<in> nbhd m h w q" using assms by (rule nbhd_sym)
  then show "f p \<le> dilate_fn m h w f q" by (rule dilate_ge)
qed

lemma open_anti_extensive:
  assumes "inside h w p"
  shows "dilate_fn m h w (erode_fn m h w g) p \<le> g p"
proof (rule dilate_le [OF assms])
  fix q assume "q \<in> nbhd m h w p"
  then have "p \<in> nbhd m h w q" using assms by (rule nbhd_sym)
  then show "erode_fn m h w g q \<le> g p" by (rule erode_le)
qed

lemma erode_mono:
  assumes "inside h w p" and le: "\<And>q. inside h w q \<Longrightarrow> f q \<le> g q"
  shows "erode_fn m h w f p \<le> erode_fn m h w g p"
proof (rule erode_ge [OF assms(1)])
  fix q assume q: "q \<in> nbhd m h w p"
  have "erode_fn m h w f p \<le> f q" using q by (rule erode_le)
  also have "\<dots> \<le> g q" using q by (intro le nbhd_inside)
  finally show "erode_fn m h w f p \<le> g q" .
qed

lemma close_idem:
  assumes "inside h w p"
  shows "close_fn m h w (close_fn m h w f) p = close_fn m h w f p"
proof (rule antisym)
  show "close_fn m h w (close_fn m h w f) p \<le> close_fn m h w f p"
    unfolding close_fn_def
    by (rule erode_mono [OF assms]) (rule open_anti_extensive)
  show "close_fn m h w f p \<le> close_fn m h w (close_fn m h w f) p"
    using assms by (rule close_extensive)
qed

lemma nb_midpoint:
  assumes "s \<in> nb 2 n p" "p < n"
  shows "\<exists>q \<in> nb 1 n p. \<forall>r \<in> nb 1 n q. s \<in> nb 2 n r"
proof -
  let ?q = "if p < s then p + 1 else if s < p then p - 1 else p"
  have "?q \<in> nb 1 n p" using assms by (auto simp: nb_def)
  moreover have "\<forall>r \<in> nb 1 n ?q. s \<in> nb 2 n r" using assms by (auto simp: nb_def)
  ultimately show ?thesis by blast
qed

lemma nbhd_midpoint:
  assumes "s \<in> nbhd 2 h w p" "inside h w p"
  shows "\<exists>q \<in> nbhd 1 h w p. \<forall>r \<in> nbhd 1 h w q. s \<in> nbhd 2 h w r"
proof -
  obtain qy where qy: "qy \<in> nb 1 h (fst p)" "\<forall>r \<in> nb 1 h qy. fst s \<in> nb 2 h r"
    using nb_midpoint [of "fst s" h "fst p"] assms by (auto simp: nbhd_def inside_def)
  obtain qx where qx: "qx \<in> nb 1 w (snd p)" "\<forall>r \<in> nb 1 w qx. snd s \<in> nb 2 w r"
    using nb_midpoint [of "snd s" w "snd p"] assms by (auto simp: nbhd_def inside_def)
  have "(qy, qx) \<in> nbhd 1 h w p" using qy qx by (simp add: nbhd_def)
  moreover have "\<forall>r \<in> nbhd 1 h w (qy, qx). s \<in> nbhd 2 h w r"
    using qy qx by (cases s) (auto simp: nbhd_def)
  ultimately show ?thesis by blast
qed

lemma close_1_close_2:
  assumes p: "inside h w p"
  shows "close_fn 1 h w (close_fn 2 h w f) p = close_fn 2 h w f p"
proof (rule antisym)
  let ?G = "dilate_fn 2 h w f"
  let ?c = "close_fn 2 h w f"
  show "close_fn 1 h w ?c p \<le> ?c p"
    unfolding close_fn_def [of 2 h w f, THEN fun_cong, of p]
  proof (rule erode_ge [OF p])
    fix s assume s: "s \<in> nbhd 2 h w p"
    then obtain q where q: "q \<in> nbhd 1 h w p" "\<forall>r \<in> nbhd 1 h w q. s \<in> nbhd 2 h w r"
      using nbhd_midpoint [OF s p] by blast
    have "close_fn 1 h w ?c p \<le> dilate_fn 1 h w ?c q"
      unfolding close_fn_def [of 1] using q(1) by (rule erode_le)
    also have "\<dots> \<le> ?G s"
    proof (rule dilate_le)
      show "inside h w q" using q(1) by (rule nbhd_inside)
      fix r assume "r \<in> nbhd 1 h w q"
      then have "s \<in> nbhd 2 h w r" using q(2) by blast
      then show "?c r \<le> ?G s" unfolding close_fn_def by (rule erode_le)
    qed
    finally show "close_fn 1 h w ?c p \<le> ?G s" .
  qed
  show "?c p \<le> close_fn 1 h w ?c p" using p by (rule close_extensive)
qed

lemma close_mono_commute:
  assumes p: "inside h w p" and s: "mono s"
  shows "close_fn m h w (\<lambda>q. s (f q)) p = s (close_fn m h w f p)"
proof -
  have ne: "\<And>q. inside h w q \<Longrightarrow> nbhd m h w q \<noteq> {}" using nbhd_self by blast
  have d: "dilate_fn m h w (\<lambda>q. s (f q)) q = s (dilate_fn m h w f q)" if "inside h w q" for q
    unfolding dilate_fn_def
    using mono_Max_commute [OF s, of "f ` nbhd m h w q"] ne [OF that]
    by (simp add: finite_nbhd image_image)
  have "close_fn m h w (\<lambda>q. s (f q)) p = erode_fn m h w (\<lambda>q. s (dilate_fn m h w f q)) p"
    unfolding close_fn_def by (rule erode_cong) (rule d)
  also have "\<dots> = s (erode_fn m h w (dilate_fn m h w f) p)"
    unfolding erode_fn_def
    using mono_Min_commute [OF s, of "dilate_fn m h w f ` nbhd m h w p"] ne [OF p]
    by (simp add: finite_nbhd image_image)
  finally show ?thesis by (simp add: close_fn_def)
qed

lemma mono_snap: "mono snap"
  by (rule monoI) (simp add: snap_def)

lemma snap_snap: "snap (snap v) = snap v"
  by (simp add: snap_def)

lemma xsize_MaxFilter: "xsize (MaxFilter sz im) = xsize im"
  by (simp add: MaxFilter_def xsize_RankFilter)
lemma ysize_MaxFilter: "ysize (MaxFilter sz im) = ysize im"
  by (simp add: MaxFilter_def ysize_RankFilter)
lemma wf_MaxFilter: "wf_imaging (MaxFilter sz im)"
  by (simp add: MaxFilter_def wf_RankFilter)
lemma xsize_MinFilter: "xsize (MinFilter sz im) = xsize im"
  by (simp add: MinFilter_def xsize_RankFilter)
lemma ysize_MinFilter: "ysize (MinFilter sz im) = ysize im"
  by (simp add: MinFilter_def ysize_RankFilter)
lemma wf_MinFilter: "wf_imaging (MinFilter sz im)"
  by (simp add: MinFilter_def wf_RankFilter)

lemma px_closing:
  assumes wf: "wf_imaging im" and p: "inside (ysize im) (xsize im) p" and sz: "sz = 2 * m + 1"
  shows "px (MinFilter sz (MaxFilter sz im)) p = close_fn m (ysize im) (xsize im) (px im) p"
proof -
  obtain y x where yx: "p = (y, x)" by (cases p)
  have "px (MinFilter sz (MaxFilter sz im)) (y, x)
        = erode_fn m (ysize im) (xsize im) (px (MaxFilter sz im)) (y, x)"
    using px_MinFilter [OF wf_MaxFilter _ _ sz, of y sz im x] p yx
    by (simp add: inside_def xsize_MaxFilter ysize_MaxFilter)
  also have "\<dots> = erode_fn m (ysize im) (xsize im) (dilate_fn m (ysize im) (xsize im) (px im)) (y, x)"
  proof (rule erode_cong)
    fix q assume "inside (ysize im) (xsize im) q"
    then show "px (MaxFilter sz im) q = dilate_fn m (ysize im) (xsize im) (px im) q"
      using px_MaxFilter [OF wf _ _ sz, of "fst q" "snd q"] by (simp add: inside_def)
  qed
  finally show ?thesis by (simp add: yx close_fn_def)
qed

lemma xsize_assign_where: "xsize (assign_where c v a) = xsize a"
  by (simp add: assign_where_def)
lemma ysize_assign_where: "ysize (assign_where c v a) = ysize a"
  by (simp add: assign_where_def)
lemma wf_assign_where: "wf_imaging a \<Longrightarrow> wf_imaging (assign_where c v a)"
  by (auto simp: assign_where_def wf_imaging_def)

lemma wf_nth_length:
  "wf_imaging a \<Longrightarrow> y < ysize a \<Longrightarrow> length (image a ! y) = xsize a"
  by (simp add: wf_imaging_def)

lemma px_assign_where:
  assumes "wf_imaging a" "inside (ysize a) (xsize a) p"
  shows "px (assign_where c v a) p = (if c (px a p) then v else px a p)"
proof -
  have "fst p < length (image a)" "snd p < length (image a ! fst p)"
    using assms wf_nth_length [OF assms(1), of "fst p"] by (simp_all add: inside_def wf_imaging_def)
  then show ?thesis by (simp add: px_def assign_where_def)
qed

lemma imaging_eqI:
  fixes a b :: "'a imaging"
  assumes "wf_imaging a" "wf_imaging b" "xsize a = xsize b" "ysize a = ysize b"
    and eq: "\<And>p. inside (ysize a) (xsize a) p \<Longrightarrow> px a p = px b p"
  shows "a = b"
proof -
  have "image a = image b"
  proof (rule nth_equalityI)
    show "length (image a) = length (image b)" using assms by (simp add: wf_imaging_def)
    fix y assume "y < length (image a)"
    then have y: "y < ysize a" using assms by (simp add: wf_imaging_def)
    show "image a ! y = image b ! y"
    proof (rule nth_equalityI)
      show "length (image a ! y) = length (image b ! y)"
        using wf_nth_length [OF assms(1) y] wf_nth_length [OF assms(2), of y] y assms(3,4) by simp
      fix x assume "x < length (image a ! y)"
      then have "inside (ysize a) (xsize a) (y, x)"
        using y wf_nth_length [OF assms(1) y] by (simp add: inside_def)
      then show "image a ! y ! x = image b ! y ! x" using eq [of "(y, x)"] by (simp add: px_def)
    qed
  qed
  then show ?thesis using assms(3,4) by simp
qed

lemma xsize_clean_mask: "xsize (clean_mask m) = xsize m"
  by (simp add: clean_mask_def Let_def xsize_assign_where xsize_MinFilter xsize_MaxFilter)
lemma ysize_clean_mask: "ysize (clean_mask m) = ysize m"
  by (simp add: clean_mask_def Let_def ysize_assign_where ysize_MinFilter ysize_MaxFilter)
lemma wf_clean_mask: "wf_imaging (clean_mask m)"
  by (simp add: clean_mask_def Let_def wf_assign_where wf_MinFilter)

lemma px_clean_mask:
  assumes wf: "wf_imaging m" and p: "inside (ysize m) (xsize m) p"
  shows "px (clean_mask m) p = snap (close_fn 2 (ysize m) (xsize m) (px m) p)"
proof -
  let ?h = "ysize m" and ?w = "xsize m"
  define c5 where "c5 = MinFilter 5 (MaxFilter 5 m)"
  define a where "a = assign_where (\<lambda>v. v \<ge> 200) 255 (assign_where (\<lambda>v. v < 8) 0 c5)"
  define c3 where "c3 = MinFilter 3 (MaxFilter 3 a)"
  have sz_c5: "ysize c5 = ?h" "xsize c5 = ?w" and wf_c5: "wf_imaging c5"
    by (simp_all add: c5_def ysize_MinFilter ysize_MaxFilter xsize_MinFilter xsize_MaxFilter wf_MinFilter)
  have sz_a: "ysize a = ?h" "xsize a = ?w" and wf_a: "wf_imaging a"
    by (simp_all add: a_def ysize_assign_where xsize_assign_where wf_assign_where sz_c5 wf_c5)
  have sz_c3: "ysize c3 = ?h" "xsize c3 = ?w" and wf_c3: "wf_imaging c3"
    by (simp_all add: c3_def ysize_MinFilter ysize_MaxFilter xsize_MinFilter xsize_MaxFilter wf_MinFilter sz_a)
  have px_c5: "px c5 q = close_fn 2 ?h ?w (px m) q" if "inside ?h ?w q" for q
    unfolding c5_def using px_closing [OF wf that, of 5 2] by simp
  have px_a: "px a q = snap (close_fn 2 ?h ?w (px m) q)" if "inside ?h ?w q" for q
    unfolding a_def using that
    by (simp add: px_assign_where wf_assign_where wf_c5 sz_c5 xsize_assign_where
        ysize_assign_where px_c5 snap_def)
  have px_c3: "px c3 q = snap (close_fn 2 ?h ?w (px m) q)" if q: "inside ?h ?w q" for q
  proof -
    have "px c3 q = close_fn 1 ?h ?w (px a) q"
      unfolding c3_def using px_closing [OF wf_a, of q 3 1] q by (simp add: sz_a del: One_nat_def)
    also have "\<dots> = close_fn 1 ?h ?w (\<lambda>r. snap (close_fn 2 ?h ?w (px m) r)) q"
      by (rule close_cong) (rule px_a)
    also have "\<dots> = snap (close_fn 1 ?h ?w (close_fn 2 ?h ?w (px m)) q)"
      using q mono_snap by (rule close_mono_commute)
    also have "\<dots> = snap (close_fn 2 ?h ?w (px m) q)"
      by (simp only: close_1_close_2 [OF q])
    finally show ?thesis .
  qed
  have "clean_mask m = assign_where (\<lambda>v. v < 8) 0 (assign_where (\<lambda>v. v \<ge> 200) 255 c3)"
    by (simp add: clean_mask_def Let_def c3_def a_def c5_def)
  then show ?thesis using p
    by (simp add: px_assign_where wf_assign_where wf_c3 sz_c3 xsize_assign_where
        ysize_assign_where px_c3 snap_def)
qed

section \<open>Curve endpoints\<close>

lemma cubic_0: "cubic p0 p1 p2 p3 0 = p0"
  by (simp add: cubic_def)

lemma cubic_1: "cubic p0 p1 p2 p3 1 = p3"
  by (simp add: cubic_def)

lemma arc_pts_endpoints:
  "arc_pts scale ! 0 = (160 * scale, 560 * scale)"
  "last (arc_pts scale) = (864 * scale, 535 * scale)"
  by (simp_all add: arc_pts_def Let_def last_map cubic_0 cubic_1)

lemma cap_boxes_endpoints:
  "cap_boxes scale stroke_w =
     [(160 * scale - stroke_w * scale / 2, 560 * scale - stroke_w * scale / 2,
       160 * scale + stroke_w * scale / 2, 560 * scale + stroke_w * scale / 2),
      (864 * scale - stroke_w * scale / 2, 535 * scale - stroke_w * scale / 2,
       864 * scale + stroke_w * scale / 2, 535 * scale + stroke_w * scale / 2)]"
  by (simp add: cap_boxes_def Let_def arc_pts_endpoints)

section \<open>The composite, pixel by pixel\<close>

lemma px_Image_new: "inside h w p \<Longrightarrow> px (Image_new (w, h) c) p = c"
  by (simp add: px_def Image_new_def inside_def)

lemma wf_Image_new: "wf_imaging (Image_new sz c)"
  by (simp add: wf_imaging_def Image_new_def)

lemma putalpha_Inr:
  assumes "xsize msk = xsize im" "ysize msk = ysize im"
  shows "\<exists>res. putalpha im msk = Inr res \<and> xsize res = xsize im \<and> ysize res = ysize im"
  using assms by (simp add: putalpha_def)

lemma px_putalpha:
  assumes wf: "wf_imaging im" "wf_imaging msk"
    and res: "putalpha im msk = Inr res"
    and p: "inside (ysize im) (xsize im) p"
  shows "px res p = (case px im p of (r, g, b, a) \<Rightarrow> (r, g, b, px msk p))"
proof -
  have sz: "xsize msk = xsize im" "ysize msk = ysize im"
    using res by (auto simp: putalpha_def split: if_splits)
  have y: "fst p < length (image im)" "fst p < length (image msk)"
    using wf p sz by (simp_all add: wf_imaging_def inside_def)
  have x: "snd p < length (image im ! fst p)" "snd p < length (image msk ! fst p)"
    using wf_nth_length [OF wf(1), of "fst p"] wf_nth_length [OF wf(2), of "fst p"] p sz
    by (simp_all add: inside_def)
  have "res = im\<lparr>image := map2 (\<lambda>line aline. map2 (\<lambda>(r, g, b, _) a. (r, g, b, a)) line aline)
               (image im) (image msk)\<rparr>"
    using res sz by (simp add: putalpha_def)
  then show ?thesis using x y by (simp add: px_def split: prod.splits)
qed

lemma make_foreground_px:
  assumes "wf_imaging arc_mask" "xsize arc_mask = OUT" "ysize arc_mask = OUT"
  shows "\<exists>fg. make_foreground_png_solid arc_mask = Inr fg \<and>
           xsize fg = OUT \<and> ysize fg = OUT \<and>
           (\<forall>p. inside OUT OUT p \<longrightarrow> px fg p = (255, 255, 255, px (clean_mask arc_mask) p))"
proof -
  let ?fg = "Image_new (OUT, OUT) (255, 255, 255, 255) :: rgba imaging"
  let ?mask = "clean_mask arc_mask"
  have sz: "xsize ?mask = xsize ?fg" "ysize ?mask = ysize ?fg"
    using assms by (simp_all add: xsize_clean_mask ysize_clean_mask Image_new_def)
  from putalpha_Inr [OF sz] obtain res where
    res: "putalpha ?fg ?mask = Inr res" "xsize res = xsize ?fg" "ysize res = ysize ?fg" by blast
  have "px res p = (255, 255, 255, px ?mask p)" if "inside OUT OUT p" for p
    using px_putalpha [OF wf_Image_new wf_clean_mask res(1), of p] that
    by (simp add: px_Image_new) (simp add: Image_new_def px_Image_new)
  then show ?thesis using res by (simp add: make_foreground_png_solid_def Image_new_def)
qed

section \<open>Value ranges\<close>

lemma is_uint8_px:
  assumes "wf_imaging a"
  shows "is_uint8 a \<longleftrightarrow> (\<forall>p. inside (ysize a) (xsize a) p \<longrightarrow> px a p \<le> 255)"
proof
  assume u: "is_uint8 a"
  show "\<forall>p. inside (ysize a) (xsize a) p \<longrightarrow> px a p \<le> 255"
  proof (intro allI impI)
    fix p assume p: "inside (ysize a) (xsize a) p"
    then have y: "fst p < length (image a)" using assms by (simp add: inside_def wf_imaging_def)
    then have l: "image a ! fst p \<in> set (image a)" by (rule nth_mem)
    have "snd p < length (image a ! fst p)"
      using p wf_nth_length [OF assms, of "fst p"] by (simp add: inside_def)
    then have "image a ! fst p ! snd p \<in> set (image a ! fst p)" by (rule nth_mem)
    with u l show "px a p \<le> 255" by (auto simp: is_uint8_def px_def)
  qed
next
  assume r: "\<forall>p. inside (ysize a) (xsize a) p \<longrightarrow> px a p \<le> 255"
  show "is_uint8 a"
    unfolding is_uint8_def
  proof (intro ballI)
    fix line v assume "line \<in> set (image a)" "v \<in> set line"
    then obtain y x where y: "y < length (image a)" "line = image a ! y"
      and x: "x < length line" "v = line ! x"
      unfolding in_set_conv_nth by blast
    then have "inside (ysize a) (xsize a) (y, x)"
      using assms wf_nth_length [OF assms, of y] by (simp add: inside_def wf_imaging_def)
    with r have "px a (y, x) \<le> 255" by blast
    then show "v \<le> 255" using y x by (simp add: px_def)
  qed
qed

lemma is_uint8_MaxFilter:
  assumes wf: "wf_imaging im" and u: "is_uint8 im" and sz: "sz = 2 * m + 1"
  shows "is_uint8 (MaxFilter sz im)"
proof -
  have "px (MaxFilter sz im) p \<le> 255" if p: "inside (ysize im) (xsize im) p" for p
  proof -
    have "px (MaxFilter sz im) p = dilate_fn m (ysize im) (xsize im) (px im) p"
      using px_MaxFilter [OF wf _ _ sz, of "fst p" "snd p"] p by (simp add: inside_def)
    also have "\<dots> \<le> 255"
    proof (rule dilate_le [OF p])
      fix q assume "q \<in> nbhd m (ysize im) (xsize im) p"
      then have "inside (ysize im) (xsize im) q" by (rule nbhd_inside)
      then show "px im q \<le> 255" using u is_uint8_px [OF wf] by blast
    qed
    finally show ?thesis .
  qed
  then show ?thesis
    by (simp add: is_uint8_px [OF wf_MaxFilter] xsize_MaxFilter ysize_MaxFilter)
qed

lemma is_uint8_MinFilter:
  assumes wf: "wf_imaging im" and u: "is_uint8 im" and sz: "sz = 2 * m + 1"
  shows "is_uint8 (MinFilter sz im)"
proof -
  have "px (MinFilter sz im) p \<le> 255" if p: "inside (ysize im) (xsize im) p" for p
  proof -
    have "px (MinFilter sz im) p = erode_fn m (ysize im) (xsize im) (px im) p"
      using px_MinFilter [OF wf _ _ sz, of "fst p" "snd p"] p by (simp add: inside_def)
    also have "\<dots> \<le> px im p" using nbhd_self [OF p] by (rule erode_le)
    also have "\<dots> \<le> 255" using u is_uint8_px [OF wf] p by blast
    finally show ?thesis .
  qed
  then show ?thesis
    by (simp add: is_uint8_px [OF wf_MinFilter] xsize_MinFilter ysize_MinFilter)
qed

lemma is_uint8_assign_where:
  assumes "is_uint8 a" "c \<le> 255"
  shows "is_uint8 (assign_where cond c a)"
  using assms by (auto simp: is_uint8_def assign_where_def)

lemma clean_mask_stages_uint8:
  assumes wf: "wf_imaging m" and u: "is_uint8 m"
  shows "\<forall>s \<in> set (clean_mask_stages m). is_uint8 s"
proof -
  define m0 where "m0 = MaxFilter 5 m"
  define m1 where "m1 = MinFilter 5 m0"
  define a where "a = assign_where (\<lambda>v. v < 8) 0 m1"
  define a' where "a' = assign_where (\<lambda>v. v \<ge> 200) 255 a"
  define m2 where "m2 = MaxFilter 3 a'"
  define m3 where "m3 = MinFilter 3 m2"
  define a2 where "a2 = assign_where (\<lambda>v. v \<ge> 200) 255 m3"
  define a2' where "a2' = assign_where (\<lambda>v. v < 8) 0 a2"
  have u0: "is_uint8 m0" unfolding m0_def by (rule is_uint8_MaxFilter [OF wf u, of 5 2]) simp
  have u1: "is_uint8 m1" and w1: "wf_imaging m1"
    unfolding m1_def m0_def
    by (rule is_uint8_MinFilter [OF wf_MaxFilter u0 [unfolded m0_def], of 5 2], simp)
      (rule wf_MinFilter)
  have ua: "is_uint8 a" unfolding a_def using u1 by (rule is_uint8_assign_where) simp
  have ua': "is_uint8 a'" and wa': "wf_imaging a'"
    unfolding a'_def a_def using ua [unfolded a_def] w1
    by (simp_all add: is_uint8_assign_where wf_assign_where)
  have u2: "is_uint8 m2" unfolding m2_def by (rule is_uint8_MaxFilter [OF wa' ua', of 3 1]) simp
  have u3: "is_uint8 m3"
    unfolding m3_def m2_def
    by (rule is_uint8_MinFilter [OF wf_MaxFilter u2 [unfolded m2_def], of 3 1]) simp
  have ua2: "is_uint8 a2" unfolding a2_def using u3 by (rule is_uint8_assign_where) simp
  have ua2': "is_uint8 a2'" unfolding a2'_def using ua2 by (rule is_uint8_assign_where) simp
  have "clean_mask_stages m = [m0, m1, a, a', m2, m3, a2, a2']"
    by (simp add: clean_mask_stages_def Let_def m0_def m1_def a_def a'_def m2_def m3_def a2_def a2'_def)
  then show ?thesis using u0 u1 ua ua' u2 u3 ua2 ua2' by simp
qed

lemma last_clean_mask_stages: "last (clean_mask_stages m) = clean_mask m"
  by (simp add: clean_mask_stages_def clean_mask_def Let_def)

text \<open>The cleanup of a mask of one colour.\<close>

lemma close_fn_const:
  assumes "inside h w p"
  shows "close_fn m h w (\<lambda>_. c) p = c"
proof -
  have ne: "nbhd m h w q \<noteq> {}" if "inside h w q" for q using nbhd_self [OF that] by blast
  have d: "dilate_fn m h w (\<lambda>_. c) q = c" if "inside h w q" for q
    using ne [OF that] by (simp add: dilate_fn_def image_constant_conv)
  have "close_fn m h w (\<lambda>_. c) p = erode_fn m h w (\<lambda>_. c) p"
    unfolding close_fn_def by (rule erode_cong) (rule d)
  also have "\<dots> = c" using ne [OF assms] by (simp add: erode_fn_def image_constant_conv)
  finally show ?thesis .
qed

lemma px_clean_mask_const:
  assumes "inside h w p"
  shows "px (clean_mask (Image_new (w, h) c)) p = snap c"
proof -
  have "px (clean_mask (Image_new (w, h) c)) p
        = snap (close_fn 2 h w (px (Image_new (w, h) c)) p)"
    using px_clean_mask [OF wf_Image_new, of "(w, h)" c p] assms by (simp add: Image_new_def)
  also have "\<dots> = snap (close_fn 2 h w (\<lambda>_. c) p)"
    by (rule arg_cong [where f = snap], rule close_cong) (simp add: px_Image_new)
  finally show ?thesis by (simp add: close_fn_const [OF assms])
qed

text \<open>The cleanup of a one-row mask, evaluated.\<close>

lemma clean_mask_example:
  "clean_mask \<lparr>xsize = 5, ysize = 1, image = [[3, 9, 5, 150, 220]]\<rparr>
     = \<lparr>xsize = 5, ysize = 1, image = [[9, 9, 9, 150, 255]]\<rparr>"
  by code_simp

section \<open>Rounding to single precision\<close>

lemma rne_of_int: "rne (of_int n) = n"
  by (simp add: rne_def)

lemma rne_near: "\<bar>of_int (rne z) - z\<bar> \<le> 1 / 2"
  unfolding rne_def Let_def by (auto simp: abs_if) linarith+

lemma rne_mono:
  assumes "z1 \<le> z2"
  shows "rne z1 \<le> rne z2"
proof (rule ccontr)
  assume "\<not> rne z1 \<le> rne z2"
  then have d: "rne z2 + 1 \<le> rne z1" by simp
  have "of_int (rne z1) \<le> z1 + 1 / 2" "z2 - 1 / 2 \<le> of_int (rne z2)"
    using rne_near [of z1] rne_near [of z2] by linarith+
  moreover have "real_of_int (rne z2) + 1 \<le> of_int (rne z1)" using d by linarith
  ultimately have "z2 \<le> z1" by linarith
  with assms have "z1 = z2" by simp
  with d show False by simp
qed

lemma rne_nonneg: "0 \<le> z \<Longrightarrow> 0 \<le> rne z"
  using rne_mono [of 0 z] rne_of_int [of 0] by simp

lemma rne_nonpos: "z \<le> 0 \<Longrightarrow> rne z \<le> 0"
  using rne_mono [of z 0] rne_of_int [of 0] by simp

lemma expo32_ge: "- 126 \<le> expo32 x"
  by (simp add: expo32_def)

lemma expo32_upper:
  assumes "x \<noteq> 0"
  shows "\<bar>x\<bar> < 2 powi (expo32 x + 1)"
proof -
  let ?k = "\<lfloor>log 2 \<bar>x\<bar>\<rfloor>"
  have "\<bar>x\<bar> < 2 powr (?k + 1)"
    using floor_log_eq_powr_iff [of "\<bar>x\<bar>" 2 ?k] assms by simp
  then have "\<bar>x\<bar> < 2 powi (?k + 1)"
    using powr_real_of_int' [of 2 "?k + 1"] by simp
  also have "\<dots> \<le> 2 powi (expo32 x + 1)"
    by (rule power_int_increasing) (simp_all add: expo32_def)
  finally show ?thesis .
qed

lemma expo32_lower:
  assumes "x \<noteq> 0" "- 126 < expo32 x"
  shows "2 powi expo32 x \<le> \<bar>x\<bar>"
proof -
  let ?k = "\<lfloor>log 2 \<bar>x\<bar>\<rfloor>"
  have k: "expo32 x = ?k" using assms(2) by (simp add: expo32_def max_def split: if_splits)
  have "2 powr ?k \<le> \<bar>x\<bar>"
    using floor_log_eq_powr_iff [of "\<bar>x\<bar>" 2 ?k] assms by simp
  then show ?thesis
    using powr_real_of_int' [of 2 ?k] k by simp
qed

lemma expo32_eqI:
  assumes "2 powi k \<le> \<bar>x\<bar>" "\<bar>x\<bar> < 2 powi (k + 1)" "- 126 \<le> k"
  shows "expo32 x = k"
proof -
  have x: "0 < \<bar>x\<bar>" using assms(1) by (smt (verit) zero_less_power_int)
  have "2 powr k \<le> \<bar>x\<bar>" "\<bar>x\<bar> < 2 powr (k + 1)"
    using assms powr_real_of_int' [of 2 k] powr_real_of_int' [of 2 "k + 1"] by simp_all
  then have "\<lfloor>log 2 \<bar>x\<bar>\<rfloor> = k"
    using floor_log_eq_powr_iff [of "\<bar>x\<bar>" 2 k] x by simp
  then show ?thesis using assms(3) by (simp add: expo32_def)
qed

lemma expo32_mono:
  assumes "0 < x" "x \<le> y"
  shows "expo32 x \<le> expo32 y"
proof -
  have "log 2 \<bar>x\<bar> \<le> log 2 \<bar>y\<bar>" using assms by simp
  then have "\<lfloor>log 2 \<bar>x\<bar>\<rfloor> \<le> \<lfloor>log 2 \<bar>y\<bar>\<rfloor>" by (rule floor_mono)
  then show ?thesis by (simp add: expo32_def)
qed

lemma rnd32_0: "rnd32 0 = 0"
  by (simp add: rnd32_def)

lemma rnd32_nonneg: "0 \<le> x \<Longrightarrow> 0 \<le> rnd32 x"
  by (simp add: rnd32_def rne_nonneg)

lemma rnd32_nonpos: "x \<le> 0 \<Longrightarrow> rnd32 x \<le> 0"
proof -
  assume "x \<le> 0"
  then have "x / 2 powi (expo32 x - 23) \<le> 0" by (simp add: divide_nonpos_pos)
  then have "rne (x / 2 powi (expo32 x - 23)) \<le> 0" by (rule rne_nonpos)
  then have "real_of_int (rne (x / 2 powi (expo32 x - 23))) * 2 powi (expo32 x - 23) \<le> 0"
    by (simp add: mult_nonpos_nonneg)
  then show ?thesis by (simp add: rnd32_def)
qed

lemma rnd32_exact:
  assumes "x / 2 powi (expo32 x - 23) = of_int n"
  shows "rnd32 x = x"
proof (cases "x = 0")
  case True
  then show ?thesis by (simp add: rnd32_def)
next
  case False
  have "rnd32 x = of_int n * 2 powi (expo32 x - 23)"
    using False by (simp add: rnd32_def assms rne_of_int)
  also have "\<dots> = x" using assms by (simp add: field_simps)
  finally show ?thesis .
qed

lemma rnd32_of_int:
  assumes "\<bar>n\<bar> < 2 ^ 24"
  shows "rnd32 (of_int n) = of_int n"
proof (cases "n = 0")
  case True
  then show ?thesis by (simp add: rnd32_def)
next
  case False
  let ?x = "real_of_int n"
  let ?e = "expo32 ?x"
  have x: "?x \<noteq> 0" using False by simp
  have "1 \<le> \<bar>?x\<bar>" using False by (simp flip: of_int_abs)
  then have "log 2 1 \<le> log 2 \<bar>?x\<bar>" by (intro log_mono) simp_all
  then have "0 \<le> \<lfloor>log 2 \<bar>?x\<bar>\<rfloor>" by simp
  then have e0: "0 \<le> ?e" by (simp add: expo32_def)
  have e23: "?e \<le> 23"
  proof (rule ccontr)
    assume "\<not> ?e \<le> 23"
    then have e: "24 \<le> ?e" by simp
    then have "(2::real) powi 24 \<le> 2 powi ?e" by (intro power_int_increasing) simp_all
    also have "\<dots> \<le> \<bar>?x\<bar>" using e by (intro expo32_lower x) simp
    finally have "(2::real) ^ 24 \<le> \<bar>?x\<bar>" by simp
    moreover have "\<bar>?x\<bar> < 2 ^ 24" using assms by (simp flip: of_int_abs)
    ultimately show False by simp
  qed
  have "(2::real) powi (?e - 23) = inverse (2 powi (23 - ?e))"
    using power_int_minus [of "2::real" "23 - ?e"] by simp
  also have "\<dots> = inverse (2 ^ nat (23 - ?e))"
    using e23 by (simp add: power_int_def)
  finally have u: "(2::real) powi (?e - 23) = inverse (2 ^ nat (23 - ?e))" .
  have "?x / 2 powi (?e - 23) = of_int (n * 2 ^ nat (23 - ?e))"
    by (simp add: u divide_inverse)
  then show ?thesis by (rule rnd32_exact)
qed

lemma pow2_split:
  "(2::real) powi (e + 1) = 2 ^ 24 * 2 powi (e - 23)"
  "(2::real) powi e = 2 ^ 23 * 2 powi (e - 23)"
proof -
  have "(2::real) powi (24 + (e - 23)) = 2 powi 24 * 2 powi (e - 23)"
    by (rule power_int_add) simp
  moreover have "24 + (e - 23) = e + 1" by simp
  ultimately show "(2::real) powi (e + 1) = 2 ^ 24 * 2 powi (e - 23)" by simp
  have "(2::real) powi (23 + (e - 23)) = 2 powi 23 * 2 powi (e - 23)"
    by (rule power_int_add) simp
  moreover have "23 + (e - 23) = e" by simp
  ultimately show "(2::real) powi e = 2 ^ 23 * 2 powi (e - 23)" by simp
qed

lemma rnd32_upper:
  assumes "0 < x"
  shows "rnd32 x \<le> 2 powi (expo32 x + 1)"
proof -
  let ?u = "(2::real) powi (expo32 x - 23)"
  have u: "0 < ?u" by simp
  have "x < 2 powi (expo32 x + 1)" using expo32_upper [of x] assms by simp
  also have "(2::real) powi (expo32 x + 1) = 2 ^ 24 * ?u" by (rule pow2_split)
  finally have "x / ?u \<le> 2 ^ 24" using u by (simp add: field_simps)
  then have "rne (x / ?u) \<le> rne (of_int (2 ^ 24))" by (intro rne_mono) simp
  then have "rne (x / ?u) \<le> 2 ^ 24" by (simp only: rne_of_int)
  then have "real_of_int (rne (x / ?u)) \<le> real_of_int (2 ^ 24)" by (simp only: of_int_le_iff)
  then have "real_of_int (rne (x / ?u)) \<le> 2 ^ 24" by simp
  then have "real_of_int (rne (x / ?u)) * ?u \<le> 2 ^ 24 * ?u"
    using u by (intro mult_right_mono) simp_all
  also have "\<dots> = 2 powi (expo32 x + 1)" by (rule pow2_split [symmetric])
  finally show ?thesis using assms by (simp add: rnd32_def)
qed

lemma rnd32_lower:
  assumes "0 < x" "- 126 < expo32 x"
  shows "2 powi expo32 x \<le> rnd32 x"
proof -
  let ?u = "(2::real) powi (expo32 x - 23)"
  have u: "0 < ?u" by simp
  have e: "(2::real) powi expo32 x = 2 ^ 23 * ?u" by (rule pow2_split)
  have "2 powi expo32 x \<le> x" using expo32_lower [of x] assms by simp
  then have "2 ^ 23 * ?u \<le> x" by (simp only: e)
  then have "2 ^ 23 \<le> x / ?u" using u by (simp add: field_simps)
  then have "rne (of_int (2 ^ 23)) \<le> rne (x / ?u)" by (intro rne_mono) simp
  then have "2 ^ 23 \<le> rne (x / ?u)" by (simp only: rne_of_int)
  then have "real_of_int (2 ^ 23) \<le> real_of_int (rne (x / ?u))" by (simp only: of_int_le_iff)
  then have "2 ^ 23 \<le> real_of_int (rne (x / ?u))" by simp
  then have "2 ^ 23 * ?u \<le> real_of_int (rne (x / ?u)) * ?u"
    using u by (intro mult_right_mono) simp_all
  then show ?thesis using assms by (simp only: rnd32_def e) simp
qed

lemma rnd32_mono_pos:
  assumes "0 < x" "x \<le> y"
  shows "rnd32 x \<le> rnd32 y"
proof (cases "expo32 x = expo32 y")
  case True
  let ?u = "(2::real) powi (expo32 y - 23)"
  have "x / ?u \<le> y / ?u" using assms by (simp add: divide_right_mono)
  then have "rne (x / ?u) \<le> rne (y / ?u)" by (rule rne_mono)
  then have "real_of_int (rne (x / ?u)) * ?u \<le> real_of_int (rne (y / ?u)) * ?u"
    by (intro mult_right_mono) simp_all
  then show ?thesis using assms True by (simp add: rnd32_def)
next
  case False
  then have lt: "expo32 x < expo32 y" using expo32_mono [OF assms] by simp
  have "rnd32 x \<le> 2 powi (expo32 x + 1)" using assms(1) by (rule rnd32_upper)
  also have "\<dots> \<le> 2 powi expo32 y" using lt by (intro power_int_increasing) simp_all
  also have "\<dots> \<le> rnd32 y"
    using assms lt expo32_ge [of x] by (intro rnd32_lower) simp_all
  finally show ?thesis .
qed

lemma rnd32_mono:
  assumes "0 \<le> x" "x \<le> y"
  shows "rnd32 x \<le> rnd32 y"
proof (cases "x = 0")
  case True
  then show ?thesis using assms rnd32_nonneg [of y] by (simp add: rnd32_0)
next
  case False
  then show ?thesis using assms by (intro rnd32_mono_pos) simp_all
qed

lemma rne_minus: "rne (- z) = - rne z"
proof (cases "z = of_int \<lfloor>z\<rfloor>")
  case True
  then obtain n where "z = of_int n" ..
  then have "- z = of_int (- n)" by simp
  then show ?thesis using \<open>z = of_int n\<close> by (simp only: rne_of_int)
next
  case False
  then have f: "\<lfloor>- z\<rfloor> = - \<lfloor>z\<rfloor> - 1"
    by (simp add: floor_minus ceiling_altdef)
  show ?thesis
    unfolding rne_def Let_def f using False by (auto simp: algebra_simps)
qed

lemma rnd32_minus: "rnd32 (- x) = - rnd32 x"
  by (simp add: rnd32_def expo32_def rne_minus)

lemma rnd32_abs: "\<bar>rnd32 x\<bar> = rnd32 \<bar>x\<bar>"
  using rnd32_nonneg [of x] rnd32_nonpos [of x] by (auto simp: abs_if rnd32_minus)

lemma rnd32_mono_all:
  assumes "x \<le> y"
  shows "rnd32 x \<le> rnd32 y"
proof -
  consider "0 \<le> x" | "x < 0" "0 \<le> y" | "y < 0" by linarith
  then show ?thesis
  proof cases
    case 1
    then show ?thesis using assms by (rule rnd32_mono)
  next
    case 2
    then show ?thesis using rnd32_nonpos [of x] rnd32_nonneg [of y] by simp
  next
    case 3
    then have "rnd32 (- y) \<le> rnd32 (- x)" using assms by (intro rnd32_mono) simp_all
    then show ?thesis by (simp add: rnd32_minus)
  qed
qed

lemma fl32_of_int:
  assumes "\<bar>n\<bar> < 2 ^ 24"
  shows "fl32 (of_int n) = Some (of_int n)"
proof -
  have "\<bar>real_of_int n\<bar> < 2 ^ 24" using assms by (simp flip: of_int_abs)
  also have "\<dots> < (2::real) ^ 128" by simp
  finally show ?thesis by (simp add: fl32_def rnd32_of_int [OF assms])
qed

lemma fl32_bounded:
  assumes "\<bar>x\<bar> \<le> of_int n" "n < 2 ^ 24"
  shows "fl32 x = Some (rnd32 x)" "\<bar>rnd32 x\<bar> \<le> of_int n"
proof -
  have n0: "0 \<le> n" using assms(1) by (smt (verit) of_int_nonneg abs_ge_zero of_int_0_le_iff)
  then have "\<bar>n\<bar> < 2 ^ 24" using assms(2) by simp
  then have e: "rnd32 (of_int n) = of_int n" by (rule rnd32_of_int)
  have "rnd32 \<bar>x\<bar> \<le> rnd32 (of_int n)" using assms(1) by (rule rnd32_mono_all)
  then show b: "\<bar>rnd32 x\<bar> \<le> of_int n" by (simp add: rnd32_abs e)
  have "real_of_int n < 2 ^ 24" using assms(2) by (metis of_int_less_iff of_int_numeral of_int_power)
  also have "\<dots> < (2::real) ^ 128" by simp
  finally show "fl32 x = Some (rnd32 x)" using b by (simp add: fl32_def)
qed

lemma fl32_simps [simp]:
  "fl32 0 = Some 0" "fl32 1 = Some 1" "fl32 185 = Some 185" "fl32 280 = Some 280"
  "fl32 512 = Some 512" "fl32 410 = Some 410"
  using fl32_of_int [of 0] fl32_of_int [of 1] fl32_of_int [of 185] fl32_of_int [of 280]
    fl32_of_int [of 512] fl32_of_int [of 410]
  by simp_all

lemma rnd32_simps [simp]:
  "rnd32 1 = 1" "rnd32 2 = 2" "rnd32 185 = 185" "rnd32 280 = 280"
  using rnd32_of_int [of 1] rnd32_of_int [of 2] rnd32_of_int [of 185] rnd32_of_int [of 280]
  by simp_all

section \<open>The glow at the default arguments\<close>

lemma sq_bound:
  fixes a :: int
  assumes "\<bar>a\<bar> \<le> 1024"
  shows "0 \<le> a\<^sup>2" "a\<^sup>2 \<le> 1048576"
proof -
  show "0 \<le> a\<^sup>2" by simp
  have "a\<^sup>2 \<le> 1024\<^sup>2" using assms abs_le_square_iff [of a 1024] by simp
  then show "a\<^sup>2 \<le> 1048576" by simp
qed

lemma sq_dist_bound:
  assumes "y < OUT" "x < OUT"
  shows "0 \<le> sq_dist y x" "sq_dist y x \<le> 2097152"
proof -
  have a: "\<bar>int x - 512\<bar> \<le> 1024" "\<bar>int y - 410\<bar> \<le> 1024"
    using assms by (simp_all add: OUT_def)
  show "0 \<le> sq_dist y x" by (simp add: sq_dist_def)
  show "sq_dist y x \<le> 2097152"
    using sq_bound(2) [OF a(1)] sq_bound(2) [OF a(2)] by (simp add: sq_dist_def)
qed


lemma default_args_simps [simp]:
  "center default_args = (512, 410)" "radius default_args = 280" "alpha0 default_args = 185"
  "power default_args = 19 / 10"
  by (simp_all add: default_args_def)

lemma dist_px_default:
  assumes "y < OUT" "x < OUT"
  shows "dist_px default_args y x = Some (rnd32 (sqrt (of_int (sq_dist y x))))"
proof -
  let ?a = "int x - 512" and ?b = "int y - 410"
  have a: "\<bar>?a\<bar> \<le> 1024" "\<bar>?b\<bar> \<le> 1024" using assms by (simp_all add: OUT_def)
  have ra: "real x - 512 = of_int ?a" and rb: "real y - 410 = of_int ?b" by simp_all
  have dx: "f32_sub (real x) 512 = Some (real x - 512)"
    unfolding f32_sub_def ra using a by (intro fl32_of_int) simp
  have dy: "f32_sub (real y) 410 = Some (real y - 410)"
    unfolding f32_sub_def rb using a by (intro fl32_of_int) simp
  have sa: "(real x - 512) * (real x - 512) = of_int (?a\<^sup>2)"
    and sb: "(real y - 410) * (real y - 410) = of_int (?b\<^sup>2)"
    by (simp_all add: power2_eq_square)
  have dx2: "f32_mul (real x - 512) (real x - 512) = Some (of_int (?a\<^sup>2))"
    unfolding f32_mul_def sa using sq_bound [OF a(1)] by (intro fl32_of_int) simp
  have dy2: "f32_mul (real y - 410) (real y - 410) = Some (of_int (?b\<^sup>2))"
    unfolding f32_mul_def sb using sq_bound [OF a(2)] by (intro fl32_of_int) simp
  have ss: "real_of_int (?a\<^sup>2) + real_of_int (?b\<^sup>2) = of_int (sq_dist y x)"
    by (simp add: sq_dist_def)
  have s: "f32_add (of_int (?a\<^sup>2)) (of_int (?b\<^sup>2)) = Some (of_int (sq_dist y x))"
    unfolding f32_add_def ss using sq_dist_bound [OF assms] by (intro fl32_of_int) simp
  have "sqrt (of_int (sq_dist y x)) \<le> sqrt (2048\<^sup>2)"
    using sq_dist_bound [OF assms] by (intro real_sqrt_le_mono) simp
  then have "\<bar>sqrt (of_int (sq_dist y x))\<bar> \<le> of_int 2048"
    using sq_dist_bound [OF assms] by simp
  then have "fl32 (sqrt (of_int (sq_dist y x))) = Some (rnd32 (sqrt (of_int (sq_dist y x))))"
    by (rule fl32_bounded) simp
  then have r: "f32_sqrt (of_int (sq_dist y x)) = Some (rnd32 (sqrt (of_int (sq_dist y x))))"
    using sq_dist_bound [OF assms] by (simp add: f32_sqrt_def)
  show ?thesis
    unfolding dist_px_def by (simp only: default_args_simps prod.case fl32_simps bind.bind_lunit dx dy dx2 dy2 s r)
qed

lemma dist_px_default_range:
  assumes "y < OUT" "x < OUT"
  shows "0 \<le> rnd32 (sqrt (of_int (sq_dist y x)))" "rnd32 (sqrt (of_int (sq_dist y x))) \<le> 2048"
proof -
  show "0 \<le> rnd32 (sqrt (of_int (sq_dist y x)))"
    using sq_dist_bound [OF assms] by (intro rnd32_nonneg) simp
  have "sqrt (of_int (sq_dist y x)) \<le> sqrt (2048\<^sup>2)"
    using sq_dist_bound [OF assms] by (intro real_sqrt_le_mono) simp
  then have "rnd32 (sqrt (of_int (sq_dist y x))) \<le> rnd32 (of_int 2048)"
    by (intro rnd32_mono_all) simp
  then show "rnd32 (sqrt (of_int (sq_dist y x))) \<le> 2048"
    using rnd32_of_int [of 2048] by simp
qed

lemma t_of_default:
  assumes "y < OUT" "x < OUT"
  shows "t_of default_args y x = Some (t_default y x)"
proof -
  let ?d = "rnd32 (sqrt (of_int (sq_dist y x)))"
  have d: "0 \<le> ?d" "?d \<le> 2048" using dist_px_default_range [OF assms] by simp_all
  then have "\<bar>?d / 280\<bar> \<le> of_int 8" by simp
  then have q: "fl32 (?d / 280) = Some (rnd32 (?d / 280))" "\<bar>rnd32 (?d / 280)\<bar> \<le> of_int 8"
    by (rule fl32_bounded, simp)+
  then have "\<bar>1 - rnd32 (?d / 280)\<bar> \<le> of_int 9" by simp
  then have v: "fl32 (1 - rnd32 (?d / 280)) = Some (rnd32 (1 - rnd32 (?d / 280)))"
    by (rule fl32_bounded) simp
  show ?thesis
    by (simp add: t_of_def dist_px_default [OF assms] f32_div_def f32_sub_def
        q(1) v t_default_def)
qed

lemma np_clip_range: "lo \<le> hi \<Longrightarrow> lo \<le> np_clip v lo hi \<and> np_clip v lo hi \<le> hi"
  by (simp add: np_clip_def min_def max_def)


lemma t_default_range: "0 \<le> t_default y x" "t_default y x \<le> 1"
  using np_clip_range [of 0 1] by (simp_all add: t_default_def)



lemma t_default_center: "t_default 410 512 = 1"
  by (simp add: t_default_def sq_dist_def rnd32_0 np_clip_def)

lemma power_default: "fl32 (19 / 10) = Some (rnd32 (19 / 10))" "0 < rnd32 (19 / 10)"
proof -
  have "\<bar>19 / 10 :: real\<bar> \<le> of_int 2" by simp
  then show "fl32 (19 / 10) = Some (rnd32 (19 / 10))" by (rule fl32_bounded) simp
  have "rnd32 1 \<le> rnd32 (19 / 10)" by (rule rnd32_mono_all) simp
  then show "0 < rnd32 (19 / 10)" by simp
qed

lemma alpha_default:
  assumes "y < OUT" "x < OUT"
  shows "alpha pw default_args y x =
           Option.bind (np_power pw (t_default y x) (rnd32 (19 / 10))) (\<lambda>w. fl32 (w * 185))"
  by (simp add: alpha_def t_of_default [OF assms] power_default f32_mul_def)

section \<open>The stored alpha and the array\<close>

lemma astype_uint8_exact:
  assumes "0 \<le> v" "v \<le> 255"
  shows "int (astype_uint8 v) = \<lfloor>v\<rfloor>" "astype_uint8 v \<le> 255"
proof -
  have "0 \<le> \<lfloor>v\<rfloor>" "\<lfloor>v\<rfloor> \<le> 255" using assms by (simp_all add: floor_le_iff le_floor_iff)
  then show "int (astype_uint8 v) = \<lfloor>v\<rfloor>" "astype_uint8 v \<le> 255"
    using assms by (simp_all add: astype_uint8_def nat_le_iff)
qed

lemma stored_range:
  "0 \<le> np_clip v 0 255" "np_clip v 0 255 \<le> 255"
  "int (astype_uint8 (np_clip v 0 255)) = \<lfloor>np_clip v 0 255\<rfloor>"
  "astype_uint8 (np_clip v 0 255) \<le> 255"
proof -
  show c: "0 \<le> np_clip v 0 255" "np_clip v 0 255 \<le> 255"
    using np_clip_range [of 0 255 v] by simp_all
  show "int (astype_uint8 (np_clip v 0 255)) = \<lfloor>np_clip v 0 255\<rfloor>"
    "astype_uint8 (np_clip v 0 255) \<le> 255"
    using c by (rule astype_uint8_exact)+
qed



lemma stored_185: "astype_uint8 (np_clip 185 0 255) = 185"
  by (simp add: np_clip_def astype_uint8_def)

lemma alpha_u8_center: "alpha_u8 pw default_args 410 512 = Some 185"
proof -
  have b: "(410::nat) < OUT" "(512::nat) < OUT" by (simp_all add: OUT_def)
  have "np_power pw 1 (rnd32 (19 / 10)) = Some 1"
    using power_default(2) by (simp add: np_power_def)
  then have "alpha pw default_args 410 512 = Some 185"
    by (simp add: alpha_default [OF b] t_default_center)
  then show ?thesis by (simp add: alpha_u8_def stored_185)
qed



lemma those_Some_nth:
  assumes "those xs = Some ys"
  shows "length ys = length xs \<and> (\<forall>i < length xs. xs ! i = Some (ys ! i))"
  using assms
proof (induction xs arbitrary: ys)
  case Nil
  then show ?case by simp
next
  case (Cons a xs)
  then obtain v vs where a: "a = Some v" and vs: "those xs = Some vs" and ys: "ys = v # vs"
    by (auto split: option.splits)
  from Cons.IH [OF vs] show ?case
    by (auto simp: a ys nth_Cons split: nat.splits)
qed

lemma those_map_Some:
  assumes "\<And>i. i < n \<Longrightarrow> f i = Some (g i)"
  shows "those (map f [0..<n]) = Some (map g [0..<n])"
  using assms
proof (induction n)
  case 0
  then show ?case by simp
next
  case (Suc n)
  have t: "those (xs @ [Some v]) = map_option (\<lambda>vs. vs @ [v]) (those xs)" for xs :: "'a option list" and v
    by (induction xs) (auto split: option.splits simp: option.map_comp comp_def)
  from Suc show ?case by (simp add: t)
qed

lemma alpha_rows_nth:
  assumes "alpha_rows pw g = Some vs" "y < OUT" "x < OUT"
  shows "alpha_u8 pw g y x = Some (vs ! y ! x)"
proof -
  have "those (map (\<lambda>x. alpha_u8 pw g y x) [0..<OUT]) = Some (vs ! y)"
    using those_Some_nth [OF assms(1) [unfolded alpha_rows_def]] assms(2) by simp
  from those_Some_nth [OF this] show ?thesis using assms(3) by simp
qed

lemma glow_rgba_px:
  assumes "glow_rgba pw g = Some arr" "y < OUT" "x < OUT"
  shows "\<exists>b. alpha_u8 pw g y x = Some b \<and> px arr (y, x) = (255, 255, 255, b)"
proof -
  obtain vs where vs: "alpha_rows pw g = Some vs"
    and arr: "arr = set_alpha vs (set_rgb 255 (np_zeros OUT OUT))"
    using assms(1) by (auto simp: glow_rgba_def Let_def split: bind_splits)
  have "px arr (y, x) = (255, 255, 255, vs ! y ! x)"
    using assms(2,3) by (simp add: arr set_alpha_def set_rgb_def np_zeros_def px_def)
  then show ?thesis using alpha_rows_nth [OF vs assms(2,3)] by simp
qed

lemma glow_rgba_total:
  assumes "\<And>y x. y < OUT \<Longrightarrow> x < OUT \<Longrightarrow> alpha_u8 pw g y x = Some (f y x)"
  shows "\<exists>arr. glow_rgba pw g = Some arr"
proof -
  let ?row = "\<lambda>y. those (map (\<lambda>x. alpha_u8 pw g y x) [0..<OUT])"
  have row: "?row y = Some (map (f y) [0..<OUT])" if "y < OUT" for y
    using assms [OF that] by (rule those_map_Some)
  have "those (map ?row [0..<OUT]) = Some (map (\<lambda>y. map (f y) [0..<OUT]) [0..<OUT])"
    using row by (rule those_map_Some [of OUT ?row "\<lambda>y. map (f y) [0..<OUT]"])
  then show ?thesis by (simp add: glow_rgba_def alpha_rows_def Let_def)
qed

lemma glow_rgba_size:
  assumes "glow_rgba pw g = Some arr"
  shows "xsize arr = OUT" "ysize arr = OUT" "wf_imaging arr"
proof -
  obtain vs where arr: "arr = set_alpha vs (set_rgb 255 (np_zeros OUT OUT))"
    using assms by (auto simp: glow_rgba_def Let_def split: bind_splits)
  show "xsize arr = OUT" "ysize arr = OUT" "wf_imaging arr"
    by (simp_all add: arr set_alpha_def set_rgb_def np_zeros_def wf_imaging_def)
qed

lemma glow_rgba_white:
  assumes "glow_rgba pw g = Some arr" "y < OUT" "x < OUT"
  shows "rgb_of (px arr (y, x)) = (255, 255, 255)"
  using glow_rgba_px [OF assms] by (auto simp: rgb_of_def)

lemma np_power_default: "np_power pw t (rnd32 (19 / 10)) = Some (pow_default pw t)"
  using power_default(2) by (simp add: np_power_def pow_default_def)

lemma pow_default_range:
  assumes "pw_monotone pw (rnd32 (19 / 10))" "0 \<le> t" "t \<le> 1"
  shows "0 \<le> pow_default pw t" "pow_default pw t \<le> 1"
proof -
  have "0 \<le> pw t (rnd32 (19 / 10)) \<and> pw t (rnd32 (19 / 10)) \<le> 1" if "0 < t" "t < 1"
    using assms(1) that unfolding pw_monotone_def by (metis order_refl)
  then show "0 \<le> pow_default pw t" "pow_default pw t \<le> 1"
    using assms(2,3) by (auto simp: pow_default_def)
qed


lemma alpha_u8_default:
  assumes m: "pw_monotone pw (rnd32 (19 / 10))" and b: "y < OUT" "x < OUT"
  shows "alpha_u8 pw default_args y x
           = Some (astype_uint8 (np_clip (rnd32 (pow_default pw (t_default y x) * 185)) 0 255))"
proof -
  let ?w = "pow_default pw (t_default y x)"
  have "0 \<le> ?w" "?w \<le> 1" using pow_default_range [OF m] t_default_range by simp_all
  then have "\<bar>?w * 185\<bar> \<le> of_int 185" by (simp add: abs_mult)
  then have "fl32 (?w * 185) = Some (rnd32 (?w * 185))" by (rule fl32_bounded) simp
  then show ?thesis by (simp add: alpha_u8_def alpha_default [OF b] np_power_default)
qed




lemma pw_monotone_rounded: "0 \<le> e \<Longrightarrow> pw_monotone (\<lambda>b e. rnd32 (b powr e)) e"
  unfolding pw_monotone_def
proof (intro allI impI conjI)
  fix a b :: real assume e: "0 \<le> e" and ab: "0 < a \<and> a \<le> b \<and> b < 1"
  show "0 \<le> rnd32 (a powr e)" by (intro rnd32_nonneg) simp
  show "rnd32 (a powr e) \<le> rnd32 (b powr e)"
    using e ab by (intro rnd32_mono_all powr_mono2) simp_all
  have "b powr e \<le> 1 powr e" using e ab by (intro powr_mono2) simp_all
  then have "rnd32 (b powr e) \<le> rnd32 1" by (intro rnd32_mono_all) simp
  then show "rnd32 (b powr e) \<le> 1" by simp
qed

lemma t_of_range:
  assumes "t_of g y x = Some t"
  shows "0 \<le> t" "t \<le> 1"
proof -
  obtain v where "t = np_clip v 0 1"
    using assms by (auto simp: t_of_def split: bind_splits)
  then show "0 \<le> t" "t \<le> 1" using np_clip_range [of 0 1 v] by simp_all
qed

lemma alpha_u8_range:
  assumes "alpha_u8 pw g y x = Some b"
  shows "b \<le> 255" "\<exists>a. alpha pw g y x = Some a \<and> int b = \<lfloor>np_clip a 0 255\<rfloor>"
proof -
  obtain a where a: "alpha pw g y x = Some a" and b: "b = astype_uint8 (np_clip a 0 255)"
    using assms by (auto simp: alpha_u8_def split: bind_splits)
  show "b \<le> 255" unfolding b by (rule stored_range)
  show "\<exists>a. alpha pw g y x = Some a \<and> int b = \<lfloor>np_clip a 0 255\<rfloor>"
    using a stored_range(3) [of a] by (simp add: b)
qed

text \<open>
  The model evaluated away from the default arguments: with exponent 1, where the
  power is the identity, the pixel in row 242 and column 512 is at distance 168,
  \<open>t\<close> is the binary32 number next below 0.4 and the stored alpha is 73, not 74.
\<close>

lemma rnd32_eval:
  assumes "2 powi k \<le> \<bar>x\<bar>" "\<bar>x\<bar> < 2 powi (k + 1)" "- 126 \<le> k"
    and "rne (x / 2 powi (k - 23)) = n"
  shows "rnd32 x = of_int n * 2 powi (k - 23)"
proof -
  have e: "expo32 x = k" using assms(1-3) by (rule expo32_eqI)
  have "x \<noteq> 0" using assms(1) by (smt (verit) zero_less_power_int abs_zero)
  then show ?thesis by (simp add: rnd32_def e assms(4))
qed

lemma rnd32_06: "rnd32 (168 / 280) = 5033165 / 8388608"
proof -
  have "rne ((168 / 280 :: real) / 2 powi (- 1 - 23)) = 10066330"
    by (simp add: rne_def Let_def power_int_minus)
  from rnd32_eval [of "- 1" "168 / 280", OF _ _ _ this] show ?thesis
    by (simp add: power_int_minus)
qed

lemma rnd32_04: "rnd32 (1 - 5033165 / 8388608) = 3355443 / 8388608"
proof -
  have "rne ((1 - 5033165 / 8388608 :: real) / 2 powi (- 2 - 23)) = 13421772"
    by (simp add: rne_def Let_def power_int_minus)
  from rnd32_eval [of "- 2" "1 - 5033165 / 8388608", OF _ _ _ this] show ?thesis
    by (simp add: power_int_minus)
qed

lemma rnd32_74: "rnd32 (3355443 / 8388608 * 185) = 9699327 / 131072"
proof -
  have "rne ((3355443 / 8388608 * 185 :: real) / 2 powi (6 - 23)) = 9699327"
    by (simp add: rne_def Let_def power_int_minus)
  from rnd32_eval [of 6 "3355443 / 8388608 * 185", OF _ _ _ this] show ?thesis
    by (simp add: power_int_minus)
qed

lemma alpha_u8_power_1:
  "alpha_u8 (\<lambda>b e. b) (default_args\<lparr>power := 1\<rparr>) 242 512 = Some 73"
proof -
  have b: "(242::nat) < OUT" "(512::nat) < OUT" by (simp_all add: OUT_def)
  have d: "dist_px (default_args\<lparr>power := 1\<rparr>) 242 512 = dist_px default_args 242 512"
    by (simp add: dist_px_def)
  have t: "t_of (default_args\<lparr>power := 1\<rparr>) 242 512 = t_of default_args 242 512"
    by (simp add: t_of_def d)
  have s: "sqrt (real_of_int (sq_dist 242 512)) = 168"
    using real_sqrt_abs [of 168] by (simp add: sq_dist_def)
  have r: "rnd32 168 = 168" using rnd32_of_int [of 168] by simp
  have "t_default 242 512 = np_clip (rnd32 (1 - rnd32 (168 / 280))) 0 1"
    by (simp only: t_default_def s r)
  also have "\<dots> = np_clip (3355443 / 8388608) 0 1"
    by (simp only: rnd32_06 rnd32_04)
  also have "\<dots> = 3355443 / 8388608" by (simp add: np_clip_def)
  finally have td: "t_default 242 512 = 3355443 / 8388608" .
  have "\<bar>9699327 / 131072 :: real\<bar> < 2 ^ 128" by simp
  then have f: "fl32 (3355443 / 8388608 * 185) = Some (9699327 / 131072)"
    unfolding fl32_def rnd32_74 by (simp only: if_True)
  have "alpha (\<lambda>b e. b) (default_args\<lparr>power := 1\<rparr>) 242 512 = Some (9699327 / 131072)"
    unfolding alpha_def t t_of_default [OF b] td f32_mul_def
    using f by (simp add: np_power_def)
  then show ?thesis by (simp add: alpha_u8_def np_clip_def astype_uint8_def)
qed

text \<open>
  The literal \<open>1.9\<close> denotes the double-precision number nearest to 19 / 10;
  both round to the same single-precision exponent.
\<close>

lemma power_literal:
  "rnd32 (19 / 10) = 15938355 / 8388608"
  "rnd32 (4278419646001971 / 2251799813685248) = 15938355 / 8388608"
proof -
  have "rne ((19 / 10 :: real) / 2 powi (0 - 23)) = 15938355"
    by (simp add: rne_def Let_def power_int_minus)
  from rnd32_eval [of 0 "19 / 10", OF _ _ _ this] show "rnd32 (19 / 10) = 15938355 / 8388608"
    by (simp add: power_int_minus)
  have "rne ((4278419646001971 / 2251799813685248 :: real) / 2 powi (0 - 23)) = 15938355"
    by (simp add: rne_def Let_def power_int_minus)
  from rnd32_eval [of 0 "4278419646001971 / 2251799813685248", OF _ _ _ this]
  show "rnd32 (4278419646001971 / 2251799813685248) = 15938355 / 8388608"
    by (simp add: power_int_minus)
qed

section \<open>Properties of the mask cleanup\<close>

text \<open>
  Claim C4. Cleaning an already cleaned mask changes nothing: for every mask
  image \<open>m\<close> (rows of equal length, as many as its height),
  \<open>clean_mask (clean_mask m)\<close> is \<open>clean_mask m\<close>.
\<close>

theorem clean_mask_idempotent:
  assumes "wf_imaging m"
  shows "clean_mask (clean_mask m) = clean_mask m"
proof (rule imaging_eqI)
  let ?h = "ysize m" and ?w = "xsize m"
  show "wf_imaging (clean_mask (clean_mask m))" "wf_imaging (clean_mask m)"
    by (rule wf_clean_mask)+
  show "xsize (clean_mask (clean_mask m)) = xsize (clean_mask m)"
    "ysize (clean_mask (clean_mask m)) = ysize (clean_mask m)"
    by (simp_all add: xsize_clean_mask ysize_clean_mask)
  fix p assume "inside (ysize (clean_mask (clean_mask m))) (xsize (clean_mask (clean_mask m))) p"
  then have p: "inside ?h ?w p" by (simp add: xsize_clean_mask ysize_clean_mask)
  have "px (clean_mask (clean_mask m)) p = snap (close_fn 2 ?h ?w (px (clean_mask m)) p)"
    using px_clean_mask [OF wf_clean_mask, of m p] p by (simp add: xsize_clean_mask ysize_clean_mask)
  also have "\<dots> = snap (close_fn 2 ?h ?w (\<lambda>q. snap (close_fn 2 ?h ?w (px m) q)) p)"
    by (rule arg_cong [where f = snap], rule close_cong) (rule px_clean_mask [OF assms])
  also have "\<dots> = snap (snap (close_fn 2 ?h ?w (close_fn 2 ?h ?w (px m)) p))"
    by (simp add: close_mono_commute [OF p mono_snap])
  also have "\<dots> = snap (close_fn 2 ?h ?w (px m) p)"
    by (simp add: snap_snap close_idem [OF p])
  also have "\<dots> = px (clean_mask m) p"
    by (rule px_clean_mask [OF assms p, symmetric])
  finally show "px (clean_mask (clean_mask m)) p = px (clean_mask m) p" .
qed

theorem clean_mask_idempotent_witness:
  "wf_imaging \<lparr>xsize = 5, ysize = 1, image = [[3, 9, 5, 150, 220 :: nat]]\<rparr> \<and>
   clean_mask (clean_mask \<lparr>xsize = 5, ysize = 1, image = [[3, 9, 5, 150, 220]]\<rparr>)
     = clean_mask \<lparr>xsize = 5, ysize = 1, image = [[3, 9, 5, 150, 220]]\<rparr>"
proof -
  have wf: "wf_imaging \<lparr>xsize = 5, ysize = 1, image = [[3, 9, 5, 150, 220 :: nat]]\<rparr>"
    by (simp add: wf_imaging_def)
  show ?thesis using wf clean_mask_idempotent [OF wf] by simp
qed

text \<open>
  Claim C9. Every pixel of the mask returned by \<open>clean_mask\<close> is 0, or 255, or
  lies between 8 and 199: no pixel of the result holds a value in 1..7 or in
  200..254.
\<close>

theorem clean_mask_values:
  "\<forall>line \<in> set (image (clean_mask m)). \<forall>v \<in> set line.
     v = 0 \<or> v = 255 \<or> (8 \<le> v \<and> v \<le> 199)"
  by (auto simp: clean_mask_def assign_where_def Let_def)

theorem clean_mask_values_witness:
  "image (clean_mask \<lparr>xsize = 5, ysize = 1, image = [[3, 9, 5, 150, 220]]\<rparr>) ! 0
     \<in> set (image (clean_mask \<lparr>xsize = 5, ysize = 1, image = [[3, 9, 5, 150, 220]]\<rparr>)) \<and>
   image (clean_mask \<lparr>xsize = 5, ysize = 1, image = [[3, 9, 5, 150, 220]]\<rparr>) ! 0 ! 4
     \<in> set (image (clean_mask \<lparr>xsize = 5, ysize = 1, image = [[3, 9, 5, 150, 220]]\<rparr>) ! 0) \<and>
   (image (clean_mask \<lparr>xsize = 5, ysize = 1, image = [[3, 9, 5, 150, 220]]\<rparr>) ! 0 ! 4 = 0 \<or>
    image (clean_mask \<lparr>xsize = 5, ysize = 1, image = [[3, 9, 5, 150, 220]]\<rparr>) ! 0 ! 4 = 255 \<or>
    (8 \<le> image (clean_mask \<lparr>xsize = 5, ysize = 1, image = [[3, 9, 5, 150, 220]]\<rparr>) ! 0 ! 4 \<and>
     image (clean_mask \<lparr>xsize = 5, ysize = 1, image = [[3, 9, 5, 150, 220]]\<rparr>) ! 0 ! 4 \<le> 199))"
proof -
  define c where "c = clean_mask \<lparr>xsize = 5, ysize = 1, image = [[3, 9, 5, 150, 220]]\<rparr>"
  have wf: "wf_imaging c" unfolding c_def by (rule wf_clean_mask)
  have sz: "ysize c = 1" "xsize c = 5"
    by (simp_all add: c_def xsize_clean_mask ysize_clean_mask)
  have "0 < length (image c)" using wf sz by (simp add: wf_imaging_def)
  then have l: "image c ! 0 \<in> set (image c)" by (rule nth_mem)
  have "4 < length (image c ! 0)" using wf_nth_length [OF wf, of 0] sz by simp
  then have v: "image c ! 0 ! 4 \<in> set (image c ! 0)" by (rule nth_mem)
  have "image c ! 0 ! 4 = 0 \<or> image c ! 0 ! 4 = 255 \<or> (8 \<le> image c ! 0 ! 4 \<and> image c ! 0 ! 4 \<le> 199)"
    using clean_mask_values [of "\<lparr>xsize = 5, ysize = 1, image = [[3, 9, 5, 150, 220]]\<rparr>"] l v
    unfolding c_def by blast
  with l v show ?thesis unfolding c_def by blast
qed

section \<open>Properties of the composite\<close>

text \<open>
  Claim C3. \<open>make_foreground_png_solid\<close> returns an image in which every pixel
  whose cleaned-mask value is 0 has alpha 0, every pixel whose cleaned-mask value
  is 255 has alpha 255 and the colour (255, 255, 255), and the colour channels
  are (255, 255, 255) at every pixel, whatever the mask value.
\<close>

theorem composite_correct:
  assumes "wf_imaging arc_mask" "xsize arc_mask = OUT" "ysize arc_mask = OUT"
  shows "\<exists>fg. make_foreground_png_solid arc_mask = Inr fg \<and>
           (\<forall>y < OUT. \<forall>x < OUT.
              (px (clean_mask arc_mask) (y, x) = 0 \<longrightarrow> alpha_of (px fg (y, x)) = 0) \<and>
              (px (clean_mask arc_mask) (y, x) = 255 \<longrightarrow>
                 alpha_of (px fg (y, x)) = 255 \<and> rgb_of (px fg (y, x)) = (255, 255, 255)) \<and>
              rgb_of (px fg (y, x)) = (255, 255, 255))"
proof -
  from make_foreground_px [OF assms] obtain fg where
    fg: "make_foreground_png_solid arc_mask = Inr fg"
      "\<And>p. inside OUT OUT p \<Longrightarrow> px fg p = (255, 255, 255, px (clean_mask arc_mask) p)"
    by blast
  have "px fg (y, x) = (255, 255, 255, px (clean_mask arc_mask) (y, x))" if "y < OUT" "x < OUT" for y x
    using fg(2) [of "(y, x)"] that by (simp add: inside_def)
  then show ?thesis using fg(1) by (simp add: alpha_of_def rgb_of_def)
qed

theorem composite_correct_witness:
  "wf_imaging (Image_new (OUT, OUT) (0 :: nat)) \<and>
   xsize (Image_new (OUT, OUT) (0 :: nat)) = OUT \<and> ysize (Image_new (OUT, OUT) (0 :: nat)) = OUT \<and>
   wf_imaging (Image_new (OUT, OUT) (255 :: nat)) \<and>
   xsize (Image_new (OUT, OUT) (255 :: nat)) = OUT \<and> ysize (Image_new (OUT, OUT) (255 :: nat)) = OUT \<and>
   (0 :: nat) < OUT \<and>
   px (clean_mask (Image_new (OUT, OUT) 0)) (0, 0) = 0 \<and>
   px (clean_mask (Image_new (OUT, OUT) 255)) (0, 0) = 255 \<and>
   (\<exists>fg. make_foreground_png_solid (Image_new (OUT, OUT) 0) = Inr fg \<and>
      alpha_of (px fg (0, 0)) = 0 \<and> rgb_of (px fg (0, 0)) = (255, 255, 255)) \<and>
   (\<exists>fg. make_foreground_png_solid (Image_new (OUT, OUT) 255) = Inr fg \<and>
      alpha_of (px fg (0, 0)) = 255 \<and> rgb_of (px fg (0, 0)) = (255, 255, 255))"
proof -
  have h0: "wf_imaging (Image_new (OUT, OUT) (0 :: nat))" "xsize (Image_new (OUT, OUT) (0 :: nat)) = OUT"
    "ysize (Image_new (OUT, OUT) (0 :: nat)) = OUT"
    by (simp_all add: wf_imaging_def Image_new_def)
  have h1: "wf_imaging (Image_new (OUT, OUT) (255 :: nat))" "xsize (Image_new (OUT, OUT) (255 :: nat)) = OUT"
    "ysize (Image_new (OUT, OUT) (255 :: nat)) = OUT"
    by (simp_all add: wf_imaging_def Image_new_def)
  have b: "(0 :: nat) < OUT" by (simp add: OUT_def)
  then have i: "inside OUT OUT (0, 0)" by (simp add: inside_def)
  have m0: "px (clean_mask (Image_new (OUT, OUT) 0)) (0, 0) = 0"
    by (simp add: px_clean_mask_const [OF i] snap_def)
  have m1: "px (clean_mask (Image_new (OUT, OUT) 255)) (0, 0) = 255"
    by (simp add: px_clean_mask_const [OF i] snap_def)
  have "\<exists>fg. make_foreground_png_solid (Image_new (OUT, OUT) 0) = Inr fg \<and>
      alpha_of (px fg (0, 0)) = 0 \<and> rgb_of (px fg (0, 0)) = (255, 255, 255)"
    using composite_correct [OF h0] b m0 by blast
  moreover have "\<exists>fg. make_foreground_png_solid (Image_new (OUT, OUT) 255) = Inr fg \<and>
      alpha_of (px fg (0, 0)) = 255 \<and> rgb_of (px fg (0, 0)) = (255, 255, 255)"
    using composite_correct [OF h1] b m1 by blast
  ultimately show ?thesis using h0 h1 b m0 m1 by blast
qed

text \<open>
  Claim C10. In the image that \<open>make_foreground_png_solid\<close> returns, the alpha
  channel is the cleaned mask at every pixel.
\<close>

theorem alpha_is_mask:
  assumes "wf_imaging arc_mask" "xsize arc_mask = OUT" "ysize arc_mask = OUT"
  shows "\<exists>fg. make_foreground_png_solid arc_mask = Inr fg \<and>
           (\<forall>y < OUT. \<forall>x < OUT. alpha_of (px fg (y, x)) = px (clean_mask arc_mask) (y, x))"
proof -
  from make_foreground_px [OF assms] obtain fg where
    fg: "make_foreground_png_solid arc_mask = Inr fg"
      "\<And>p. inside OUT OUT p \<Longrightarrow> px fg p = (255, 255, 255, px (clean_mask arc_mask) p)"
    by blast
  have "px fg (y, x) = (255, 255, 255, px (clean_mask arc_mask) (y, x))" if "y < OUT" "x < OUT" for y x
    using fg(2) [of "(y, x)"] that by (simp add: inside_def)
  then show ?thesis using fg(1) by (simp add: alpha_of_def)
qed

theorem alpha_is_mask_witness:
  "wf_imaging (Image_new (OUT, OUT) (100 :: nat)) \<and>
   xsize (Image_new (OUT, OUT) (100 :: nat)) = OUT \<and> ysize (Image_new (OUT, OUT) (100 :: nat)) = OUT \<and>
   (3 :: nat) < OUT \<and> (5 :: nat) < OUT \<and>
   px (clean_mask (Image_new (OUT, OUT) 100)) (3, 5) = 100 \<and>
   (\<exists>fg. make_foreground_png_solid (Image_new (OUT, OUT) 100) = Inr fg \<and>
      alpha_of (px fg (3, 5)) = 100)"
proof -
  have h: "wf_imaging (Image_new (OUT, OUT) (100 :: nat))"
    "xsize (Image_new (OUT, OUT) (100 :: nat)) = OUT"
    "ysize (Image_new (OUT, OUT) (100 :: nat)) = OUT"
    by (simp_all add: wf_imaging_def Image_new_def)
  have b: "(3 :: nat) < OUT" "(5 :: nat) < OUT" by (simp_all add: OUT_def)
  then have i: "inside OUT OUT (3, 5)" by (simp add: inside_def)
  have m: "px (clean_mask (Image_new (OUT, OUT) 100)) (3, 5) = 100"
    by (simp add: px_clean_mask_const [OF i] snap_def)
  obtain fg where fg: "make_foreground_png_solid (Image_new (OUT, OUT) 100) = Inr fg"
    "\<forall>y < OUT. \<forall>x < OUT.
       alpha_of (px fg (y, x)) = px (clean_mask (Image_new (OUT, OUT) 100)) (y, x)"
    using alpha_is_mask [OF h] by blast
  from fg(2) b have "alpha_of (px fg (3, 5)) = px (clean_mask (Image_new (OUT, OUT) 100)) (3, 5)"
    by blast
  with m fg(1) have "\<exists>fg. make_foreground_png_solid (Image_new (OUT, OUT) 100) = Inr fg \<and>
      alpha_of (px fg (3, 5)) = 100" by auto
  then show ?thesis using h b m by blast
qed

section \<open>Properties of the glow\<close>





section \<open>The clamp invariant\<close>

text \<open>
  Claim C6. No value outside [0, 255] is written into a pixel buffer by
  \<open>make_glow_png\<close> or by \<open>clean_mask\<close>. In the glow, whatever value is handed to
  \<open>np.clip(_, 0, 255)\<close>, the clipped value lies in [0, 255], so that the 8-bit
  cast neither wraps nor goes negative and yields its integer part; for every
  argument record, power function and pixel, \<open>t\<close> lies in [0, 1] and the alpha
  written is at most 255 and is the integer part of the clipped \<open>alpha\<close>; and
  every pixel of the array \<open>glow_rgba\<close> is (255, 255, 255, b) with \<open>b\<close> at most
  255. In the cleanup of an 8-bit mask, every buffer computed on the way, and
  the result, is 8-bit.
\<close>

theorem clamp_invariant:
  "(\<forall>v. 0 \<le> np_clip v 0 255 \<and> np_clip v 0 255 \<le> 255 \<and>
        int (astype_uint8 (np_clip v 0 255)) = \<lfloor>np_clip v 0 255\<rfloor> \<and>
        astype_uint8 (np_clip v 0 255) \<le> 255) \<and>
   (\<forall>pw g y x.
      (\<forall>t. t_of g y x = Some t \<longrightarrow> 0 \<le> t \<and> t \<le> 1) \<and>
      (\<forall>b. alpha_u8 pw g y x = Some b \<longrightarrow>
         b \<le> 255 \<and> (\<exists>a. alpha pw g y x = Some a \<and> int b = \<lfloor>np_clip a 0 255\<rfloor>))) \<and>
   (\<forall>pw g arr. glow_rgba pw g = Some arr \<longrightarrow>
      (\<forall>y < OUT. \<forall>x < OUT. \<exists>b \<le> 255. px arr (y, x) = (255, 255, 255, b))) \<and>
   (\<forall>m. wf_imaging m \<and> is_uint8 m \<longrightarrow>
      (\<forall>s \<in> set (clean_mask_stages m). is_uint8 s) \<and>
      last (clean_mask_stages m) = clean_mask m \<and> is_uint8 (clean_mask m))"
proof (intro conjI allI impI)
  fix v :: real
  show "0 \<le> np_clip v 0 255" "np_clip v 0 255 \<le> 255"
    "int (astype_uint8 (np_clip v 0 255)) = \<lfloor>np_clip v 0 255\<rfloor>"
    "astype_uint8 (np_clip v 0 255) \<le> 255"
    by (rule stored_range)+
next
  fix g :: glow_args and y x :: nat and t
  assume "t_of g y x = Some t"
  then show "0 \<le> t" "t \<le> 1" by (rule t_of_range)+
next
  fix pw :: "real \<Rightarrow> real \<Rightarrow> real" and g :: glow_args and y x :: nat and b
  assume "alpha_u8 pw g y x = Some b"
  then show "b \<le> 255" "\<exists>a. alpha pw g y x = Some a \<and> int b = \<lfloor>np_clip a 0 255\<rfloor>"
    by (rule alpha_u8_range)+
next
  fix pw :: "real \<Rightarrow> real \<Rightarrow> real" and g :: glow_args and arr y x
  assume "glow_rgba pw g = Some arr" "y < OUT" "x < OUT"
  from glow_rgba_px [OF this] obtain b where
    "alpha_u8 pw g y x = Some b" "px arr (y, x) = (255, 255, 255, b)" by blast
  then show "\<exists>b \<le> 255. px arr (y, x) = (255, 255, 255, b)"
    using alpha_u8_range(1) by blast
next
  fix m :: "nat imaging" assume m: "wf_imaging m \<and> is_uint8 m"
  then have "wf_imaging m" "is_uint8 m" by simp_all
  then show s: "\<forall>s \<in> set (clean_mask_stages m). is_uint8 s"
    by (rule clean_mask_stages_uint8)
  show l: "last (clean_mask_stages m) = clean_mask m" by (rule last_clean_mask_stages)
  have "clean_mask_stages m \<noteq> []" by (simp add: clean_mask_stages_def Let_def)
  then have "last (clean_mask_stages m) \<in> set (clean_mask_stages m)" by (rule last_in_set)
  with s l show "is_uint8 (clean_mask m)" by auto
qed

theorem clamp_invariant_witness:
  "(410 :: nat) < OUT \<and> (512 :: nat) < OUT \<and>
   t_of default_args 410 512 = Some 1 \<and> (0 :: real) \<le> 1 \<and>
   alpha_u8 (\<lambda>b e. rnd32 (b powr e)) default_args 410 512 = Some 185 \<and> (185 :: nat) \<le> 255 \<and>
   (\<exists>a. alpha (\<lambda>b e. rnd32 (b powr e)) default_args 410 512 = Some a \<and>
      int 185 = \<lfloor>np_clip a 0 255\<rfloor>) \<and>
   (\<exists>arr. glow_rgba (\<lambda>b e. rnd32 (b powr e)) default_args = Some arr \<and>
      (\<exists>b \<le> 255. px arr (410, 512) = (255, 255, 255, b))) \<and>
   wf_imaging \<lparr>xsize = 3, ysize = 1, image = [[3, 9, 250 :: nat]]\<rparr> \<and>
   is_uint8 \<lparr>xsize = 3, ysize = 1, image = [[3, 9, 250]]\<rparr> \<and>
   list_all is_uint8 (clean_mask_stages \<lparr>xsize = 3, ysize = 1, image = [[3, 9, 250]]\<rparr>) \<and>
   is_uint8 (clean_mask \<lparr>xsize = 3, ysize = 1, image = [[3, 9, 250]]\<rparr>)"
proof -
  let ?pw = "\<lambda>b e :: real. rnd32 (b powr e)"
  have b: "(410 :: nat) < OUT" "(512 :: nat) < OUT" by (simp_all add: OUT_def)
  have t: "t_of default_args 410 512 = Some 1"
    by (simp add: t_of_default [OF b] t_default_center)
  have u: "alpha_u8 ?pw default_args 410 512 = Some 185" by (rule alpha_u8_center)
  have mo: "pw_monotone ?pw (rnd32 (19 / 10))"
    using power_default(2) by (intro pw_monotone_rounded) simp
  obtain arr where arr: "glow_rgba ?pw default_args = Some arr"
    using glow_rgba_total [of ?pw default_args, OF alpha_u8_default [OF mo]] by blast
  have m: "wf_imaging \<lparr>xsize = 3, ysize = 1, image = [[3, 9, 250 :: nat]]\<rparr> \<and>
           is_uint8 \<lparr>xsize = 3, ysize = 1, image = [[3, 9, 250]]\<rparr>"
    by (simp add: wf_imaging_def is_uint8_def)
  have "(185 :: nat) \<le> 255 \<and> (\<exists>a. alpha ?pw default_args 410 512 = Some a \<and>
      int 185 = \<lfloor>np_clip a 0 255\<rfloor>)"
    using clamp_invariant u by blast
  moreover have "\<exists>b \<le> 255. px arr (410, 512) = (255, 255, 255, b)"
    using clamp_invariant arr b by blast
  moreover have "(\<forall>s \<in> set (clean_mask_stages \<lparr>xsize = 3, ysize = 1, image = [[3, 9, 250]]\<rparr>). is_uint8 s) \<and>
      is_uint8 (clean_mask \<lparr>xsize = 3, ysize = 1, image = [[3, 9, 250]]\<rparr>)"
    using clamp_invariant m by blast
  ultimately show ?thesis using b t u arr m by (simp add: list_all_iff)
qed

end
